theory Spec2Isabelle
  imports Complex_Main "HOL-Library.Word" "HOL-Library.Product_Lexorder" "HOL-Library.Multiset"
begin

unbundle bit_operations_syntax

section \<open>Duplicate detection for submissions (scripts/deduplicate.py)\<close>

text \<open>
  The development embeds \<^verbatim>\<open>scripts/deduplicate.py\<close>. A Python \<^verbatim>\<open>str\<close> is the list of
  its code points; the embedding uses \<^typ>\<open>string\<close>, whose characters are read as the code
  points U+0000 to U+00FF, and gives these the classification Python gives them. Code
  points above U+00FF are outside the embedding. The similarity ratio is a Python float
  computed as \<^verbatim>\<open>2.0 * matches / length\<close> and compared with the literals 0.8 and 0.6; the
  embedding uses the exact rational value, which decides the comparisons the same way
  for all texts shorter than 2^50 characters.
\<close>

subsection \<open>Configuration\<close>

definition TITLE_SIMILARITY_THRESHOLD :: rat where
  "TITLE_SIMILARITY_THRESHOLD = 8 / 10"

definition CONTENT_SIMILARITY_THRESHOLD :: rat where
  "CONTENT_SIMILARITY_THRESHOLD = 6 / 10"

definition MIN_CONTENT_LENGTH :: nat where
  "MIN_CONTENT_LENGTH = 100"

subsection \<open>Text normalisation\<close>

text \<open>\<^verbatim>\<open>str.lower()\<close> on U+0000..U+00FF: A-Z and the Latin-1 capitals move up by 32.\<close>

definition lower_char :: "char \<Rightarrow> char" where
  "lower_char c =
     (let n = (of_char c :: nat)
      in if (65 \<le> n \<and> n \<le> 90) \<or> (192 \<le> n \<and> n \<le> 214) \<or> (216 \<le> n \<and> n \<le> 222)
         then char_of (n + 32) else c)"

text \<open>The class \<^verbatim>\<open>\s\<close> of a \<^verbatim>\<open>str\<close> pattern (also what \<^verbatim>\<open>str.strip()\<close> removes).\<close>

definition is_space :: "char \<Rightarrow> bool" where
  "is_space c =
     (let n = (of_char c :: nat)
      in (9 \<le> n \<and> n \<le> 13) \<or> (28 \<le> n \<and> n \<le> 32) \<or> n = 133 \<or> n = 160)"

text \<open>The class \<^verbatim>\<open>\w\<close> of a \<^verbatim>\<open>str\<close> pattern: alphanumeric code points and the underscore.\<close>

definition is_word :: "char \<Rightarrow> bool" where
  "is_word c =
     (let n = (of_char c :: nat)
      in (48 \<le> n \<and> n \<le> 57) \<or> (65 \<le> n \<and> n \<le> 90) \<or> n = 95 \<or> (97 \<le> n \<and> n \<le> 122)
         \<or> n = 170 \<or> n = 178 \<or> n = 179 \<or> n = 181 \<or> n = 185 \<or> n = 186
         \<or> (188 \<le> n \<and> n \<le> 190) \<or> (192 \<le> n \<and> n \<le> 214) \<or> (216 \<le> n \<and> n \<le> 246)
         \<or> 248 \<le> n)"

text \<open>\<^verbatim>\<open>re.sub(r"\s+", " ", text)\<close>: every maximal run of whitespace becomes one space.\<close>

function collapse_whitespace :: "string \<Rightarrow> string" where
  "collapse_whitespace [] = []"
| "collapse_whitespace (c # cs) =
     (if is_space c then CHR '' '' # collapse_whitespace (dropWhile is_space cs)
      else c # collapse_whitespace cs)"
  by pat_completeness auto
termination
  by (relation "measure length") (auto simp: length_dropWhile_le less_Suc_eq_le)

definition strip :: "string \<Rightarrow> string" where
  "strip s = dropWhile is_space (rev (dropWhile is_space (rev s)))"

definition normalize_text :: "string \<Rightarrow> string" where
  "normalize_text text =
     (let text1 = map lower_char text;
          text2 = filter (\<lambda>c. is_word c \<or> is_space c) text1;
          text3 = collapse_whitespace text2
      in strip text3)"

subsection \<open>difflib.SequenceMatcher(None, a, b).ratio()\<close>

text \<open>
  The standard library's matcher, as \<^verbatim>\<open>compute_similarity\<close> calls it: no junk
  predicate, \<^verbatim>\<open>autojunk\<close> left at its default. \<^verbatim>\<open>chain_b\<close> builds \<^verbatim>\<open>b2j\<close>, the
  ascending indices of every element of \<^verbatim>\<open>b\<close>; when \<^verbatim>\<open>b\<close> has 200 elements or more, an
  element with more than \<^verbatim>\<open>n // 100 + 1\<close> occurrences is "popular" and loses its entry.
  The function below is \<^verbatim>\<open>b2j.get(elt, [])\<close>.
\<close>

type_synonym block = "nat \<times> nat \<times> nat"

definition chain_b :: "string \<Rightarrow> char \<Rightarrow> nat list" where
  "chain_b b elt =
     (let n = length b;
          idxs = filter (\<lambda>i. b ! i = elt) [0..<n]
      in if 200 \<le> n \<and> n div 100 + 1 < length idxs then [] else idxs)"

text \<open>\<^verbatim>\<open>j2len.get(j-1, 0)\<close>; index \<^verbatim>\<open>-1\<close> is never a key.\<close>

definition j2lenget :: "(nat \<rightharpoonup> nat) \<Rightarrow> nat \<Rightarrow> nat" where
  "j2lenget j2len j =
     (if j = 0 then 0 else case j2len (j - 1) of None \<Rightarrow> 0 | Some v \<Rightarrow> v)"

text \<open>
  The inner loop of \<^verbatim>\<open>find_longest_match\<close> over the indices \<^verbatim>\<open>j\<close> of \<^verbatim>\<open>a[i]\<close> in \<^verbatim>\<open>b\<close>,
  with its \<^verbatim>\<open>continue\<close> and \<^verbatim>\<open>break\<close>. Python's \<^verbatim>\<open>i-k+1\<close> is written \<open>i + 1 - k\<close>, the
  same integer since \<open>k \<le> i + 1\<close>.
\<close>

fun flm_row :: "nat \<Rightarrow> nat \<Rightarrow> nat \<Rightarrow> (nat \<rightharpoonup> nat) \<Rightarrow> nat list \<Rightarrow> (nat \<rightharpoonup> nat) \<Rightarrow> block
                  \<Rightarrow> (nat \<rightharpoonup> nat) \<times> block" where
  "flm_row i blo bhi j2len [] newj2len best = (newj2len, best)"
| "flm_row i blo bhi j2len (j # js) newj2len (besti, bestj, bestsize) =
     (if j < blo then flm_row i blo bhi j2len js newj2len (besti, bestj, bestsize)
      else if bhi \<le> j then (newj2len, (besti, bestj, bestsize))
      else
        (let k = j2lenget j2len j + 1
         in if bestsize < k
            then flm_row i blo bhi j2len js (newj2len(j \<mapsto> k)) (i + 1 - k, j + 1 - k, k)
            else flm_row i blo bhi j2len js (newj2len(j \<mapsto> k)) (besti, bestj, bestsize)))"

text \<open>The outer loop \<^verbatim>\<open>for i in range(alo, ahi)\<close>.\<close>

fun flm_rows :: "string \<Rightarrow> (char \<Rightarrow> nat list) \<Rightarrow> nat \<Rightarrow> nat \<Rightarrow> nat list \<Rightarrow> (nat \<rightharpoonup> nat)
                   \<Rightarrow> block \<Rightarrow> block" where
  "flm_rows a b2j blo bhi [] j2len best = best"
| "flm_rows a b2j blo bhi (i # is) j2len best =
     (case flm_row i blo bhi j2len (b2j (a ! i)) Map.empty best of
        (newj2len, best') \<Rightarrow> flm_rows a b2j blo bhi is newj2len best')"

text \<open>
  The two loops that extend the best block by equal elements on each end. The junk set
  is empty, so \<^verbatim>\<open>not isbjunk(...)\<close> holds and the two later loops, guarded by
  \<^verbatim>\<open>isbjunk(...)\<close>, never run.
\<close>

function extend_left :: "string \<Rightarrow> string \<Rightarrow> nat \<Rightarrow> nat \<Rightarrow> block \<Rightarrow> block" where
  "extend_left a b alo blo (besti, bestj, bestsize) =
     (if alo < besti \<and> blo < bestj \<and> a ! (besti - 1) = b ! (bestj - 1)
      then extend_left a b alo blo (besti - 1, bestj - 1, bestsize + 1)
      else (besti, bestj, bestsize))"
  by pat_completeness auto
termination
  by (relation "measure (\<lambda>(a, b, alo, blo, besti, bestj, bestsize). besti)") auto

function extend_right :: "string \<Rightarrow> string \<Rightarrow> nat \<Rightarrow> nat \<Rightarrow> block \<Rightarrow> block" where
  "extend_right a b ahi bhi (besti, bestj, bestsize) =
     (if besti + bestsize < ahi \<and> bestj + bestsize < bhi
         \<and> a ! (besti + bestsize) = b ! (bestj + bestsize)
      then extend_right a b ahi bhi (besti, bestj, bestsize + 1)
      else (besti, bestj, bestsize))"
  by pat_completeness auto
termination
  by (relation "measure (\<lambda>(a, b, ahi, bhi, besti, bestj, bestsize). ahi - (besti + bestsize))") auto

declare extend_left.simps [simp del] extend_right.simps [simp del]

definition find_longest_match ::
  "string \<Rightarrow> string \<Rightarrow> (char \<Rightarrow> nat list) \<Rightarrow> nat \<Rightarrow> nat \<Rightarrow> nat \<Rightarrow> nat \<Rightarrow> block" where
  "find_longest_match a b b2j alo ahi blo bhi =
     extend_right a b ahi bhi
       (extend_left a b alo blo
          (flm_rows a b2j blo bhi [alo..<ahi] Map.empty (alo, blo, 0)))"

lemma j2lenget_le:
  "\<forall>j v. j2len j = Some v \<longrightarrow> v \<le> m \<Longrightarrow> j2lenget j2len j \<le> m"
  by (auto simp: j2lenget_def split: option.splits)

lemma flm_row_bounds:
  assumes "\<forall>j v. j2len j = Some v \<longrightarrow> v \<le> i - alo"
    and "alo \<le> i"
    and "alo \<le> bi" and "bi + bs \<le> i + 1"
    and "\<forall>j v. newj2len j = Some v \<longrightarrow> v \<le> i + 1 - alo"
    and "flm_row i blo bhi j2len js newj2len (bi, bj, bs) = (nj, (bi', bj', bs'))"
  shows "alo \<le> bi' \<and> bi' + bs' \<le> i + 1 \<and> (\<forall>j v. nj j = Some v \<longrightarrow> v \<le> i + 1 - alo)"
  using assms
proof (induction js arbitrary: newj2len bi bj bs)
  case Nil
  then show ?case by simp
next
  case (Cons j js)
  have k: "j2lenget j2len j + 1 \<le> i + 1 - alo"
    using j2lenget_le[OF Cons.prems(1), of j] Cons.prems(2) by simp
  show ?case
  proof (cases "j < blo")
    case True
    with Cons show ?thesis by simp
  next
    case nlo: False
    show ?thesis
    proof (cases "bhi \<le> j")
      case True
      with nlo Cons.prems show ?thesis by simp
    next
      case False
      let ?k = "j2lenget j2len j + 1"
      have nj: "\<forall>j' v. (newj2len(j \<mapsto> ?k)) j' = Some v \<longrightarrow> v \<le> i + 1 - alo"
        using Cons.prems(5) k by auto
      show ?thesis
      proof (cases "bs < ?k")
        case True
        have "flm_row i blo bhi j2len js (newj2len(j \<mapsto> ?k)) (i + 1 - ?k, j + 1 - ?k, ?k) = (nj, (bi', bj', bs'))"
          using Cons.prems(6) nlo False True by (simp add: Let_def)
        moreover have "alo \<le> i + 1 - ?k" using k Cons.prems(2) by simp
        moreover have "i + 1 - ?k + ?k \<le> i + 1" using k by simp
        ultimately show ?thesis
          using Cons.IH[OF Cons.prems(1) Cons.prems(2) _ _ nj] by blast
      next
        case nb: False
        have "flm_row i blo bhi j2len js (newj2len(j \<mapsto> ?k)) (bi, bj, bs) = (nj, (bi', bj', bs'))"
          using Cons.prems(6) nlo False nb by (simp add: Let_def)
        then show ?thesis
          using Cons.IH[OF Cons.prems(1) Cons.prems(2) Cons.prems(3) Cons.prems(4) nj] by blast
      qed
    qed
  qed
qed

lemma flm_rows_bounds:
  assumes "\<forall>j v. j2len j = Some v \<longrightarrow> v \<le> i - alo"
    and "alo \<le> i" and "alo \<le> bi" and "bi + bs \<le> i"
    and "flm_rows a b2j blo bhi [i..<ahi] j2len (bi, bj, bs) = (bi', bj', bs')"
  shows "alo \<le> bi' \<and> bi' + bs' \<le> max i ahi"
  using assms
proof (induction "ahi - i" arbitrary: i j2len bi bj bs)
  case 0
  then show ?case by simp
next
  case (Suc n)
  then have lt: "i < ahi" by simp
  obtain nj ci cj cs where
    row: "flm_row i blo bhi j2len (b2j (a ! i)) Map.empty (bi, bj, bs) = (nj, (ci, cj, cs))"
    by (metis prod_cases3)
  have rb: "alo \<le> ci \<and> ci + cs \<le> i + 1 \<and> (\<forall>j v. nj j = Some v \<longrightarrow> v \<le> i + 1 - alo)"
    using flm_row_bounds[OF Suc.prems(1) Suc.prems(2) Suc.prems(3) _ _ row] Suc.prems(4) by simp
  have rest: "flm_rows a b2j blo bhi [Suc i..<ahi] nj (ci, cj, cs) = (bi', bj', bs')"
    using Suc.prems(5) lt row by (simp add: upt_conv_Cons)
  have "alo \<le> bi' \<and> bi' + bs' \<le> max (Suc i) ahi"
    using Suc.hyps(1)[of "Suc i" nj ci cs cj] Suc.hyps(2) rb Suc.prems(2) rest by simp
  with lt show ?case by simp
qed

lemma extend_left_bounds:
  "extend_left a b alo blo (bi, bj, bs) = (bi', bj', bs') \<Longrightarrow> alo \<le> bi
   \<Longrightarrow> alo \<le> bi' \<and> bi' + bs' = bi + bs"
proof (induction a b alo blo "(bi, bj, bs)" arbitrary: bi bj bs rule: extend_left.induct)
  case (1 a b alo blo besti bestj bestsize)
  show ?case
  proof (cases "alo < besti \<and> blo < bestj \<and> a ! (besti - 1) = b ! (bestj - 1)")
    case True
    then have "extend_left a b alo blo (besti - 1, bestj - 1, bestsize + 1) = (bi', bj', bs')"
      using "1.prems"(1) by (subst (asm) extend_left.simps) simp
    moreover have "alo \<le> besti - 1" using True by arith
    ultimately show ?thesis using "1.hyps"[OF True] True by auto
  next
    case False
    then show ?thesis using "1.prems" by (subst (asm) extend_left.simps) auto
  qed
qed

lemma extend_right_bounds:
  "extend_right a b ahi bhi (bi, bj, bs) = (bi', bj', bs')
   \<Longrightarrow> bi' = bi \<and> bs \<le> bs' \<and> bi + bs' \<le> max (bi + bs) ahi"
proof (induction a b ahi bhi "(bi, bj, bs)" arbitrary: bi bj bs rule: extend_right.induct)
  case (1 a b ahi bhi besti bestj bestsize)
  show ?case
  proof (cases "besti + bestsize < ahi \<and> bestj + bestsize < bhi
         \<and> a ! (besti + bestsize) = b ! (bestj + bestsize)")
    case True
    then have "extend_right a b ahi bhi (besti, bestj, bestsize + 1) = (bi', bj', bs')"
      using "1.prems"(1) by (subst (asm) extend_right.simps) simp
    from "1.hyps"[OF True this] True show ?thesis by simp
  next
    case False
    then show ?thesis using "1.prems" by (subst (asm) extend_right.simps) auto
  qed
qed

lemma find_longest_match_bounds:
  assumes "find_longest_match a b b2j alo ahi blo bhi = (i, j, k)"
  shows "alo \<le> i \<and> (k \<noteq> 0 \<longrightarrow> i + k \<le> ahi)"
proof -
  obtain bi bj bs where r: "flm_rows a b2j blo bhi [alo..<ahi] Map.empty (alo, blo, 0) = (bi, bj, bs)"
    by (metis prod_cases3)
  obtain ci cj cs where l: "extend_left a b alo blo (bi, bj, bs) = (ci, cj, cs)"
    by (metis prod_cases3)
  have e: "extend_right a b ahi bhi (ci, cj, cs) = (i, j, k)"
    using assms r l by (simp add: find_longest_match_def)
  have 1: "alo \<le> bi \<and> bi + bs \<le> max alo ahi"
    using flm_rows_bounds[OF _ _ _ _ r, of alo] by simp
  have 2: "alo \<le> ci \<and> ci + cs = bi + bs"
    using extend_left_bounds[OF l] 1 by simp
  have 3: "i = ci \<and> cs \<le> k \<and> ci + k \<le> max (ci + cs) ahi"
    using extend_right_bounds[OF e] by simp
  from 1 2 3 show ?thesis by (auto simp: max_def split: if_splits)
qed

text \<open>
  The loop of \<^verbatim>\<open>get_matching_blocks\<close> over its work list: \<^verbatim>\<open>queue.pop()\<close> takes the entry
  appended last, so the head of the list is the top of the stack. Its termination rests
  on the bounds of \<^verbatim>\<open>find_longest_match\<close> proved above.
\<close>

function blocks_loop ::
  "string \<Rightarrow> string \<Rightarrow> (char \<Rightarrow> nat list) \<Rightarrow> (nat \<times> nat \<times> nat \<times> nat) list \<Rightarrow> block list
     \<Rightarrow> block list" where
  "blocks_loop a b b2j [] matching_blocks = matching_blocks"
| "blocks_loop a b b2j ((alo, ahi, blo, bhi) # queue) matching_blocks =
     (case find_longest_match a b b2j alo ahi blo bhi of
        (i, j, k) \<Rightarrow>
          if k \<noteq> 0
          then blocks_loop a b b2j
                 ((if i + k < ahi \<and> j + k < bhi then [(i + k, ahi, j + k, bhi)] else [])
                  @ (if alo < i \<and> blo < j then [(alo, i, blo, j)] else [])
                  @ queue)
                 (matching_blocks @ [(i, j, k)])
          else blocks_loop a b b2j queue matching_blocks)"
  by pat_completeness auto
termination
proof (relation "measure (\<lambda>(a, b, b2j, queue, mbs).
          sum_list (map (\<lambda>(alo, ahi, blo, bhi). 2 * (ahi - alo) + 1) queue))", goal_cases)
  case 1
  then show ?case by simp
next
  case (2 a b b2j alo ahi blo bhi queue matching_blocks x1 x2 x1a x2a)
  then have "find_longest_match a b b2j alo ahi blo bhi = (x1, x1a, x2a)" by simp
  from find_longest_match_bounds[OF this] 2 show ?case by auto
next
  case (3 a b b2j alo ahi blo bhi queue matching_blocks x1 x2 x1a x2a)
  then show ?case by simp
qed

declare blocks_loop.simps [simp del]

text \<open>
  The second half of \<^verbatim>\<open>get_matching_blocks\<close>: the blocks are sorted (tuples compare
  lexicographically), adjacent blocks are merged, starting from the dummy \<^verbatim>\<open>(0, 0, 0)\<close>,
  and the sentinel \<^verbatim>\<open>(la, lb, 0)\<close> is appended.
\<close>

fun collapse_adjacent :: "block list \<Rightarrow> block \<Rightarrow> block list \<Rightarrow> block list" where
  "collapse_adjacent [] (i1, j1, k1) non_adjacent =
     (if k1 \<noteq> 0 then non_adjacent @ [(i1, j1, k1)] else non_adjacent)"
| "collapse_adjacent ((i2, j2, k2) # rest) (i1, j1, k1) non_adjacent =
     (if i1 + k1 = i2 \<and> j1 + k1 = j2
      then collapse_adjacent rest (i1, j1, k1 + k2) non_adjacent
      else collapse_adjacent rest (i2, j2, k2)
             (if k1 \<noteq> 0 then non_adjacent @ [(i1, j1, k1)] else non_adjacent))"

definition get_matching_blocks :: "string \<Rightarrow> string \<Rightarrow> block list" where
  "get_matching_blocks a b =
     (let la = length a;
          lb = length b;
          matching_blocks = blocks_loop a b (chain_b b) [(0, la, 0, lb)] [];
          sorted_blocks = sort matching_blocks;
          non_adjacent = collapse_adjacent sorted_blocks (0, 0, 0) []
      in non_adjacent @ [(la, lb, 0)])"

text \<open>\<^verbatim>\<open>_calculate_ratio\<close>: \<^verbatim>\<open>2.0 * matches / length\<close>, and 1.0 when the length is 0.\<close>

definition calculate_ratio :: "nat \<Rightarrow> nat \<Rightarrow> rat" where
  "calculate_ratio matches len = (if len \<noteq> 0 then 2 * of_nat matches / of_nat len else 1)"

definition ratio :: "string \<Rightarrow> string \<Rightarrow> rat" where
  "ratio a b =
     (let matches = sum_list (map (\<lambda>(i, j, k). k) (get_matching_blocks a b))
      in calculate_ratio matches (length a + length b))"

subsection \<open>compute\_similarity\<close>

definition compute_similarity :: "string \<Rightarrow> string \<Rightarrow> rat" where
  "compute_similarity text1 text2 =
     (let norm1 = normalize_text text1;
          norm2 = normalize_text text2
      in ratio norm1 norm2)"

subsection \<open>hashlib.sha256 and str.encode("utf-8")\<close>

text \<open>
  \<^verbatim>\<open>str.encode("utf-8")\<close> on the code points U+0000..U+00FF: one byte below 128, two
  bytes from 128 on.
\<close>

type_synonym byte = "8 word"

definition encode_utf8 :: "string \<Rightarrow> byte list" where
  "encode_utf8 s =
     concat (map (\<lambda>c. let n = (of_char c :: nat)
                      in if n < 128 then [of_nat n]
                         else [of_nat (192 + n div 64), of_nat (128 + n mod 64)]) s)"

text \<open>SHA-256 as in FIPS 180-4, on 32-bit words.\<close>

text \<open>The round constants and the initial hash value, in decimal.\<close>

definition K256 :: "32 word list" where
  "K256 =
    [1116352408, 1899447441, 3049323471, 3921009573, 961987163, 1508970993, 2453635748, 2870763221,
     3624381080, 310598401, 607225278, 1426881987, 1925078388, 2162078206, 2614888103, 3248222580,
     3835390401, 4022224774, 264347078, 604807628, 770255983, 1249150122, 1555081692, 1996064986,
     2554220882, 2821834349, 2952996808, 3210313671, 3336571891, 3584528711, 113926993, 338241895,
     666307205, 773529912, 1294757372, 1396182291, 1695183700, 1986661051, 2177026350, 2456956037,
     2730485921, 2820302411, 3259730800, 3345764771, 3516065817, 3600352804, 4094571909, 275423344,
     430227734, 506948616, 659060556, 883997877, 958139571, 1322822218, 1537002063, 1747873779,
     1955562222, 2024104815, 2227730452, 2361852424, 2428436474, 2756734187, 3204031479, 3329325298]"

definition H256 :: "32 word list" where
  "H256 = [1779033703, 3144134277, 1013904242, 2773480762,
           1359893119, 2600822924, 528734635, 1541459225]"

definition Ch :: "32 word \<Rightarrow> 32 word \<Rightarrow> 32 word \<Rightarrow> 32 word" where
  "Ch x y z = (x AND y) XOR (NOT x AND z)"

definition Maj :: "32 word \<Rightarrow> 32 word \<Rightarrow> 32 word \<Rightarrow> 32 word" where
  "Maj x y z = (x AND y) XOR (x AND z) XOR (y AND z)"

definition Sigma0 :: "32 word \<Rightarrow> 32 word" where
  "Sigma0 x = word_rotr 2 x XOR word_rotr 13 x XOR word_rotr 22 x"

definition Sigma1 :: "32 word \<Rightarrow> 32 word" where
  "Sigma1 x = word_rotr 6 x XOR word_rotr 11 x XOR word_rotr 25 x"

definition sigma0 :: "32 word \<Rightarrow> 32 word" where
  "sigma0 x = word_rotr 7 x XOR word_rotr 18 x XOR drop_bit 3 x"

definition sigma1 :: "32 word \<Rightarrow> 32 word" where
  "sigma1 x = word_rotr 17 x XOR word_rotr 19 x XOR drop_bit 10 x"

text \<open>The \<open>k\<close> bytes of a word, most significant first.\<close>

definition be_bytes :: "nat \<Rightarrow> 'a::len word \<Rightarrow> byte list" where
  "be_bytes k w = map (\<lambda>i. ucast (drop_bit (8 * (k - 1 - i)) w)) [0..<k]"

text \<open>Padding: the byte 0x80, zero bytes up to 56 modulo 64, the bit length in 8 bytes.\<close>

definition sha_pad :: "byte list \<Rightarrow> byte list" where
  "sha_pad m =
     m @ [0x80] @ replicate ((119 - length m mod 64) mod 64) 0
       @ be_bytes 8 (of_nat (8 * length m) :: 64 word)"

definition be_word :: "byte list \<Rightarrow> 32 word" where
  "be_word bs = foldl (\<lambda>w b. push_bit 8 w OR ucast b) 0 bs"

fun words_of :: "nat \<Rightarrow> byte list \<Rightarrow> 32 word list" where
  "words_of 0 bs = []"
| "words_of (Suc n) bs = be_word (take 4 bs) # words_of n (drop 4 bs)"

text \<open>The message schedule: the 16 words of the block, then 48 derived words.\<close>

fun schedule :: "nat \<Rightarrow> 32 word list \<Rightarrow> 32 word list" where
  "schedule 0 w = w"
| "schedule (Suc n) w =
     schedule n
       (w @ [sigma1 (w ! (length w - 2)) + w ! (length w - 7)
             + sigma0 (w ! (length w - 15)) + w ! (length w - 16)])"

definition sha_round :: "32 word list \<Rightarrow> 32 word \<times> 32 word \<Rightarrow> 32 word list" where
  "sha_round s kw =
     (case s of
        [a, b, c, d, e, f, g, h] \<Rightarrow>
          (let t1 = h + Sigma1 e + Ch e f g + fst kw + snd kw;
               t2 = Sigma0 a + Maj a b c
           in [t1 + t2, a, b, c, d + t1, e, f, g])
      | _ \<Rightarrow> s)"

definition compress :: "32 word list \<Rightarrow> byte list \<Rightarrow> 32 word list" where
  "compress hs block =
     (let w = schedule 48 (words_of 16 block);
          s = foldl sha_round hs (zip K256 w)
      in map2 (+) hs s)"

function sha_blocks :: "32 word list \<Rightarrow> byte list \<Rightarrow> 32 word list" where
  "sha_blocks hs bs =
     (if length bs < 64 then hs else sha_blocks (compress hs (take 64 bs)) (drop 64 bs))"
  by pat_completeness auto
termination
  by (relation "measure (\<lambda>(hs, bs). length bs)") auto

declare sha_blocks.simps [simp del]

definition sha256 :: "byte list \<Rightarrow> byte list" where
  "sha256 m = concat (map (be_bytes 4) (sha_blocks H256 (sha_pad m)))"

text \<open>\<^verbatim>\<open>hexdigest()\<close>: two lowercase hexadecimal digits for every byte.\<close>

definition hex_digit :: "nat \<Rightarrow> char" where
  "hex_digit n = ''0123456789abcdef'' ! (n mod 16)"

definition hexdigest :: "byte list \<Rightarrow> string" where
  "hexdigest bs = concat (map (\<lambda>b. [hex_digit (unat b div 16), hex_digit (unat b)]) bs)"

definition compute_hash :: "string \<Rightarrow> string" where
  "compute_hash content =
     (let normalized = normalize_text content
      in hexdigest (sha256 (encode_utf8 normalized)))"

subsection \<open>Submission records and match results\<close>

text \<open>
  A submission whose title is a string: the four keys of the dictionary that
  \<^verbatim>\<open>check_duplicate\<close> reads, the path standing for the \<^verbatim>\<open>Path\<close> object. The dictionaries
  that \<^verbatim>\<open>load_submission\<close> builds, whose title can be of any type, come further down.
\<close>

record submission =
  path :: string
  title :: string
  content :: string
  hash :: string

text \<open>
  The dictionary appended to \<^verbatim>\<open>duplicates\<close>. The source renders the reason as text,
  \<^verbatim>\<open>"Exact content match"\<close>, \<^verbatim>\<open>f"Similar title ({title_sim:.1%} match)"\<close> or
  \<^verbatim>\<open>f"Similar content ({content_sim:.1%} match)"\<close>; the embedding keeps the kind of reason
  and the score the text is formatted from.
\<close>

datatype reason = ExactContentMatch | SimilarTitle rat | SimilarContent rat

record match_result =
  submission :: submission
  reason :: reason
  similarity :: rat

subsection \<open>check\_duplicate\<close>

text \<open>
  The loop body of \<^verbatim>\<open>check_duplicate\<close> for one existing submission. Beside the list
  \<^verbatim>\<open>duplicates\<close> it threads a log with one entry for every call of
  \<^verbatim>\<open>compute_similarity\<close> the body makes, in order: which of the two calls, and for which
  existing submission. \<^verbatim>\<open>Path.resolve()\<close> reads the file system and is a parameter.
\<close>

datatype sim_call = TitleSimilarity | ContentSimilarity

type_synonym call_log = "(sim_call \<times> submission) list"

definition check_duplicate_body ::
  "(string \<Rightarrow> string) \<Rightarrow> submission \<Rightarrow> submission \<Rightarrow> match_result list \<times> call_log
     \<Rightarrow> match_result list \<times> call_log" where
  "check_duplicate_body resolve new_submission existing st =
     (case st of (duplicates, calls) \<Rightarrow>
        if resolve (path existing) = resolve (path new_submission) then (duplicates, calls)
        else if hash existing = hash new_submission
        then (duplicates @ [\<lparr>submission = existing, reason = ExactContentMatch, similarity = 1\<rparr>],
              calls)
        else
          (let title_sim = compute_similarity (title new_submission) (title existing);
               calls1 = calls @ [(TitleSimilarity, existing)]
           in if TITLE_SIMILARITY_THRESHOLD \<le> title_sim
              then (duplicates @ [\<lparr>submission = existing, reason = SimilarTitle title_sim,
                                    similarity = title_sim\<rparr>], calls1)
              else if MIN_CONTENT_LENGTH \<le> length (content new_submission)
                      \<and> MIN_CONTENT_LENGTH \<le> length (content existing)
              then
                (let content_sim = compute_similarity (content new_submission) (content existing);
                     calls2 = calls1 @ [(ContentSimilarity, existing)]
                 in if CONTENT_SIMILARITY_THRESHOLD \<le> content_sim
                    then (duplicates @ [\<lparr>submission = existing,
                                          reason = SimilarContent content_sim,
                                          similarity = content_sim\<rparr>], calls2)
                    else (duplicates, calls2))
              else (duplicates, calls1)))"

fun check_duplicate_loop ::
  "(string \<Rightarrow> string) \<Rightarrow> submission \<Rightarrow> submission list \<Rightarrow> match_result list \<times> call_log
     \<Rightarrow> match_result list \<times> call_log" where
  "check_duplicate_loop resolve new_submission [] st = st"
| "check_duplicate_loop resolve new_submission (existing # rest) st =
     check_duplicate_loop resolve new_submission rest
       (check_duplicate_body resolve new_submission existing st)"

text \<open>
  \<^verbatim>\<open>list.sort(key=..., reverse=True)\<close>: the list is reversed, sorted by a stable ascending
  sort, and reversed again.
\<close>

definition sort_reverse :: "('a \<Rightarrow> rat) \<Rightarrow> 'a list \<Rightarrow> 'a list" where
  "sort_reverse key xs = rev (sort_key key (rev xs))"

definition check_duplicate ::
  "(string \<Rightarrow> string) \<Rightarrow> submission \<Rightarrow> submission list \<Rightarrow> bool \<times> match_result list" where
  "check_duplicate resolve new_submission existing_submissions =
     (let duplicates =
            fst (check_duplicate_loop resolve new_submission existing_submissions ([], []));
          duplicates = sort_reverse similarity duplicates
      in (0 < length duplicates, duplicates))"

text \<open>The calls of \<^verbatim>\<open>compute_similarity\<close> that one run of \<^verbatim>\<open>check_duplicate\<close> makes.\<close>

definition similarity_calls ::
  "(string \<Rightarrow> string) \<Rightarrow> submission \<Rightarrow> submission list \<Rightarrow> call_log" where
  "similarity_calls resolve new_submission existing_submissions =
     snd (check_duplicate_loop resolve new_submission existing_submissions ([], []))"

subsection \<open>Loading submissions and the batch runner\<close>

text \<open>
  The file system and the \<^verbatim>\<open>frontmatter\<close> parser are the environment of a run:
  \<^verbatim>\<open>frontmatter.load\<close> gives the metadata and the content of a file or raises (\<open>None\<close>),
  \<^verbatim>\<open>Path.exists\<close>, \<^verbatim>\<open>Path.glob("**/*.md")\<close> and \<^verbatim>\<open>Path.resolve\<close> read the directory tree.
  A value of the metadata header is whatever the YAML parser builds: a string, a byte
  string (\<^verbatim>\<open>!!binary\<close>), or a value of another type (a number, a boolean, a date, a
  list, a mapping, or \<^verbatim>\<open>None\<close> for an empty entry).
\<close>

datatype yaml_value = YString string | YBinary | YOther

record post =
  metadata :: "string \<rightharpoonup> yaml_value"
  post_content :: string

record environment =
  frontmatter_load :: "string \<Rightarrow> post option"
  dir_exists :: "string \<Rightarrow> bool"
  glob_md :: "string \<Rightarrow> string list"
  resolve_path :: "string \<Rightarrow> string"

text \<open>
  The dictionary built by \<^verbatim>\<open>load_submission\<close>: the title is the value of the header,
  of any type, or the empty string when the header has no title.
\<close>

record submission_dict =
  dict_path :: string
  dict_title :: yaml_value
  dict_content :: string
  dict_hash :: string

text \<open>\<^verbatim>\<open>load_submission\<close>: every exception becomes \<^verbatim>\<open>None\<close> (and a printed warning).\<close>

definition load_submission :: "environment \<Rightarrow> string \<Rightarrow> submission_dict option" where
  "load_submission env filepath =
     (case frontmatter_load env filepath of
        None \<Rightarrow> None
      | Some p \<Rightarrow>
          Some \<lparr>dict_path = filepath,
                dict_title = (case metadata p ''title'' of None \<Rightarrow> YString '''' | Some t \<Rightarrow> t),
                dict_content = post_content p,
                dict_hash = compute_hash (post_content p)\<rparr>)"

definition find_all_submissions :: "environment \<Rightarrow> string \<Rightarrow> submission_dict list" where
  "find_all_submissions env base_path =
     (let submissions_dir = base_path @ ''/submissions''
      in if \<not> dir_exists env submissions_dir then []
         else List.map_filter (load_submission env) (glob_md env submissions_dir))"

subsection \<open>check\_duplicate on loaded dictionaries\<close>

text \<open>
  On a title that is not a string \<^verbatim>\<open>normalize_text\<close> raises: a value without a
  \<^verbatim>\<open>lower\<close> method gives \<^verbatim>\<open>AttributeError\<close>, and a byte string, which has one, gives
  \<^verbatim>\<open>TypeError\<close> in \<^verbatim>\<open>re.sub\<close> with its string pattern. \<^verbatim>\<open>compute_similarity\<close> normalises
  its first argument first.
\<close>

datatype exception = AttributeError | TypeError

definition normalize_value :: "yaml_value \<Rightarrow> exception + string" where
  "normalize_value v =
     (case v of
        YString text \<Rightarrow> Inr (normalize_text text)
      | YBinary \<Rightarrow> Inl TypeError
      | YOther \<Rightarrow> Inl AttributeError)"

definition compute_similarity_value :: "yaml_value \<Rightarrow> yaml_value \<Rightarrow> exception + rat" where
  "compute_similarity_value text1 text2 =
     (case normalize_value text1 of
        Inl e \<Rightarrow> Inl e
      | Inr norm1 \<Rightarrow>
          (case normalize_value text2 of
             Inl e \<Rightarrow> Inl e
           | Inr norm2 \<Rightarrow> Inr (ratio norm1 norm2)))"

record dict_match =
  matched :: submission_dict
  match_reason :: reason
  match_similarity :: rat

text \<open>
  \<^verbatim>\<open>check_duplicate\<close> as the batch runner calls it, on the dictionaries of
  \<^verbatim>\<open>load_submission\<close>: the same loop body, in which the comparison of the titles can
  raise; an exception leaves the loop and the function. The contents are strings.
\<close>

definition check_duplicate_dict_body ::
  "(string \<Rightarrow> string) \<Rightarrow> submission_dict \<Rightarrow> submission_dict \<Rightarrow> dict_match list
     \<Rightarrow> exception + dict_match list" where
  "check_duplicate_dict_body resolve new_submission existing duplicates =
     (if resolve (dict_path existing) = resolve (dict_path new_submission) then Inr duplicates
      else if dict_hash existing = dict_hash new_submission
      then Inr (duplicates @ [\<lparr>matched = existing, match_reason = ExactContentMatch,
                                match_similarity = 1\<rparr>])
      else
        (case compute_similarity_value (dict_title new_submission) (dict_title existing) of
           Inl e \<Rightarrow> Inl e
         | Inr title_sim \<Rightarrow>
             if TITLE_SIMILARITY_THRESHOLD \<le> title_sim
             then Inr (duplicates @ [\<lparr>matched = existing, match_reason = SimilarTitle title_sim,
                                       match_similarity = title_sim\<rparr>])
             else if MIN_CONTENT_LENGTH \<le> length (dict_content new_submission)
                     \<and> MIN_CONTENT_LENGTH \<le> length (dict_content existing)
             then
               (let content_sim =
                      compute_similarity (dict_content new_submission) (dict_content existing)
                in if CONTENT_SIMILARITY_THRESHOLD \<le> content_sim
                   then Inr (duplicates @ [\<lparr>matched = existing,
                                             match_reason = SimilarContent content_sim,
                                             match_similarity = content_sim\<rparr>])
                   else Inr duplicates)
             else Inr duplicates))"

fun check_duplicate_dict_loop ::
  "(string \<Rightarrow> string) \<Rightarrow> submission_dict \<Rightarrow> submission_dict list \<Rightarrow> dict_match list
     \<Rightarrow> exception + dict_match list" where
  "check_duplicate_dict_loop resolve new_submission [] duplicates = Inr duplicates"
| "check_duplicate_dict_loop resolve new_submission (existing # rest) duplicates =
     (case check_duplicate_dict_body resolve new_submission existing duplicates of
        Inl e \<Rightarrow> Inl e
      | Inr duplicates' \<Rightarrow> check_duplicate_dict_loop resolve new_submission rest duplicates')"

definition check_duplicate_dict ::
  "(string \<Rightarrow> string) \<Rightarrow> submission_dict \<Rightarrow> submission_dict list
     \<Rightarrow> exception + bool \<times> dict_match list" where
  "check_duplicate_dict resolve new_submission existing_submissions =
     (case check_duplicate_dict_loop resolve new_submission existing_submissions [] of
        Inl e \<Rightarrow> Inl e
      | Inr duplicates \<Rightarrow>
          (let duplicates = sort_reverse match_similarity duplicates
           in Inr (0 < length duplicates, duplicates)))"

text \<open>
  A record with a string title as a dictionary, and a match between such records as a
  match between dictionaries. On these, \<^verbatim>\<open>check_duplicate_dict\<close> is \<^verbatim>\<open>check_duplicate\<close>
  (lemma \<open>check_duplicate_dict_strings\<close>).
\<close>

definition as_dict :: "submission \<Rightarrow> submission_dict" where
  "as_dict s = \<lparr>dict_path = path s, dict_title = YString (title s), dict_content = content s,
               dict_hash = hash s\<rparr>"

definition as_dict_match :: "match_result \<Rightarrow> dict_match" where
  "as_dict_match m = \<lparr>matched = as_dict (submission m), match_reason = reason m,
                     match_similarity = similarity m\<rparr>"

subsection \<open>check\_submissions\_for\_duplicates\<close>

text \<open>
  The entry of \<^verbatim>\<open>results\<close> for one file: its status and what comes with it. An
  exception raised by \<^verbatim>\<open>check_duplicate\<close> is not caught: it ends the loop and the run.
\<close>

datatype outcome = Error string | Duplicate "dict_match list" | Unique

fun batch_loop ::
  "environment \<Rightarrow> submission_dict list \<Rightarrow> string list \<Rightarrow> bool \<times> (string \<rightharpoonup> outcome)
     \<Rightarrow> exception + bool \<times> (string \<rightharpoonup> outcome)" where
  "batch_loop env all_submissions [] st = Inr st"
| "batch_loop env all_submissions (filepath # rest) (has_duplicates, results) =
     (case load_submission env filepath of
        None \<Rightarrow>
          batch_loop env all_submissions rest
            (has_duplicates, results(filepath \<mapsto> Error ''Failed to load submission''))
      | Some new_sub \<Rightarrow>
          (case check_duplicate_dict (resolve_path env) new_sub all_submissions of
             Inl e \<Rightarrow> Inl e
           | Inr (is_dup, duplicates) \<Rightarrow>
               if is_dup
               then batch_loop env all_submissions rest
                      (True, results(filepath \<mapsto> Duplicate duplicates))
               else batch_loop env all_submissions rest
                      (has_duplicates, results(filepath \<mapsto> Unique))))"

definition check_submissions_for_duplicates ::
  "environment \<Rightarrow> string list \<Rightarrow> string \<Rightarrow> exception + bool \<times> (string \<rightharpoonup> outcome)" where
  "check_submissions_for_duplicates env new_files base_path =
     (let all_submissions = find_all_submissions env base_path
      in batch_loop env all_submissions new_files (False, Map.empty))"

text \<open>
  What the loop body of \<^verbatim>\<open>check_submissions_for_duplicates\<close> does for one file, given the
  loaded corpus: the entry it stores in \<^verbatim>\<open>results\<close>, or the exception it lets through.
\<close>

definition file_outcome ::
  "environment \<Rightarrow> submission_dict list \<Rightarrow> string \<Rightarrow> exception + outcome" where
  "file_outcome env all_submissions filepath =
     (case load_submission env filepath of
        None \<Rightarrow> Inr (Error ''Failed to load submission'')
      | Some new_sub \<Rightarrow>
          (case check_duplicate_dict (resolve_path env) new_sub all_submissions of
             Inl e \<Rightarrow> Inl e
           | Inr (is_dup, duplicates) \<Rightarrow>
               Inr (if is_dup then Duplicate duplicates else Unique)))"

subsection \<open>A notion for the proofs about find\_longest\_match\<close>

text \<open>
  The length of the run of indices satisfying \<open>np\<close> that ends at index \<open>i\<close>; with \<open>np\<close> the
  indices of the elements that are not popular, the longest block a row of
  \<^verbatim>\<open>find_longest_match\<close> can end with at \<open>i\<close>.
\<close>

fun run_length :: "(nat \<Rightarrow> bool) \<Rightarrow> nat \<Rightarrow> nat" where
  "run_length np 0 = (if np 0 then 1 else 0)"
| "run_length np (Suc i) = (if np (Suc i) then run_length np i + 1 else 0)"

subsection \<open>Example submissions\<close>

text \<open>
  Small records on which the theorems below are evaluated. Every hash is the hash of the
  content, as \<^verbatim>\<open>load_submission\<close> computes it.
\<close>

definition ex_new :: submission where
  "ex_new = \<lparr>path = ''submissions/2024/new.md'', title = ''abc'', content = ''a'',
             hash = compute_hash ''a''\<rparr>"

definition ex_same_content :: submission where
  "ex_same_content = \<lparr>path = ''submissions/2023/same.md'', title = ''zzz'', content = ''A!'',
                      hash = compute_hash ''A!''\<rparr>"

definition ex_close_title :: submission where
  "ex_close_title = \<lparr>path = ''submissions/2023/close.md'', title = ''ab'', content = ''b'',
                     hash = compute_hash ''b''\<rparr>"

definition ex_close_title2 :: submission where
  "ex_close_title2 = \<lparr>path = ''submissions/2022/close.md'', title = ''ab'', content = ''b'',
                      hash = compute_hash ''b''\<rparr>"

definition ex_other :: submission where
  "ex_other = \<lparr>path = ''submissions/2023/other.md'', title = ''xyz'', content = ''b'',
               hash = compute_hash ''b''\<rparr>"

definition ex_untitled_new :: submission where
  "ex_untitled_new = \<lparr>path = ''submissions/2024/new.md'', title = [], content = ''a'',
                      hash = compute_hash ''a''\<rparr>"

definition ex_untitled_old :: submission where
  "ex_untitled_old = \<lparr>path = ''submissions/2023/old.md'', title = [], content = ''b'',
                      hash = compute_hash ''b''\<rparr>"

definition ex_long_new :: submission where
  "ex_long_new = \<lparr>path = ''submissions/2024/new.md'', title = ''abc'',
                  content = CHR ''a'' # replicate 99 CHR ''!'',
                  hash = compute_hash (CHR ''a'' # replicate 99 CHR ''!'')\<rparr>"

definition ex_long_old :: submission where
  "ex_long_old = \<lparr>path = ''submissions/2023/long.md'', title = ''xyz'',
                  content = CHR ''b'' # replicate 99 CHR ''!'',
                  hash = compute_hash (CHR ''b'' # replicate 99 CHR ''!'')\<rparr>"

definition ex_long_same :: submission where
  "ex_long_same = \<lparr>path = ''submissions/2023/longsame.md'', title = ''zzz'',
                   content = CHR ''A'' # replicate 99 CHR ''!'',
                   hash = compute_hash (CHR ''A'' # replicate 99 CHR ''!'')\<rparr>"

text \<open>
  A small environment: the corpus directory holds one readable file and one that fails
  to load; of the three new files one fails to load, and the other two have the same
  content.
\<close>

definition ex_env :: environment where
  "ex_env =
     \<lparr>frontmatter_load =
        (\<lambda>p. if p = ''submissions/2023/close.md''
              then Some \<lparr>metadata = [''title'' \<mapsto> YString ''ab''], post_content = ''b''\<rparr>
              else if p = ''new/first.md''
              then Some \<lparr>metadata = [''title'' \<mapsto> YString ''abc''], post_content = ''a''\<rparr>
              else if p = ''new/second.md''
              then Some \<lparr>metadata = [''title'' \<mapsto> YString ''xyz''], post_content = ''a''\<rparr>
              else None),
      dir_exists = (\<lambda>d. d = ''./submissions''),
      glob_md = (\<lambda>d. if d = ''./submissions''
                      then [''submissions/2023/close.md'', ''submissions/2023/broken.md'']
                      else []),
      resolve_path = (\<lambda>p. p)\<rparr>"

text \<open>
  An environment in which the files to check are files of the corpus directory, as when
  the script is run on submissions that are already in place: two files with the same
  normal form of the content.
\<close>

definition ex_env_in_place :: environment where
  "ex_env_in_place =
     \<lparr>frontmatter_load =
        (\<lambda>p. if p = ''submissions/2024/new.md''
              then Some \<lparr>metadata = [''title'' \<mapsto> YString ''abc''], post_content = ''a''\<rparr>
              else if p = ''submissions/2023/same.md''
              then Some \<lparr>metadata = [''title'' \<mapsto> YString ''zzz''], post_content = ''A!''\<rparr>
              else None),
      dir_exists = (\<lambda>d. d = ''./submissions''),
      glob_md = (\<lambda>d. if d = ''./submissions''
                      then [''submissions/2024/new.md'', ''submissions/2023/same.md'']
                      else []),
      resolve_path = (\<lambda>p. p)\<rparr>"

text \<open>
  The first environment with one more new file, whose header has \<^verbatim>\<open>title: 2024\<close>: the
  YAML parser makes the title an integer.
\<close>

definition ex_env_number_title :: environment where
  "ex_env_number_title =
     ex_env\<lparr>frontmatter_load :=
        (\<lambda>p. if p = ''new/numbered.md''
              then Some \<lparr>metadata = [''title'' \<mapsto> YOther], post_content = ''a''\<rparr>
              else frontmatter_load ex_env p)\<rparr>"

section \<open>Lemmas\<close>

subsection \<open>The ratio of a sequence with itself, and with the empty sequence\<close>

lemma run_length_le: "run_length np i \<le> i + 1"
  by (induction i) auto

lemma run_length_step:
  "np i \<Longrightarrow> run_length np i = (if i = 0 then 0 else run_length np (i - 1)) + 1"
  by (cases i) auto

lemma j2lenget_run:
  assumes "\<forall>j v. j2len j = Some v \<longrightarrow> v \<le> run_length np j \<and> 0 < i \<and> v \<le> run_length np (i - 1)"
    and "np j" and "np i"
  shows "j2lenget j2len j + 1 \<le> run_length np j \<and> j2lenget j2len j + 1 \<le> run_length np i"
proof (cases "j = 0 \<or> j2len (j - 1) = None")
  case True
  then have "j2lenget j2len j = 0" by (auto simp: j2lenget_def)
  with assms(2,3) show ?thesis by (simp add: run_length_step)
next
  case False
  then obtain v where v: "j2len (j - 1) = Some v" and j: "j \<noteq> 0" by auto
  then have g: "j2lenget j2len j = v" by (simp add: j2lenget_def)
  from assms(1) v have "v \<le> run_length np (j - 1)" "0 < i" "v \<le> run_length np (i - 1)" by blast+
  with g j assms(2,3) show ?thesis by (simp add: run_length_step)
qed

lemma flm_row_diag:
  assumes prev: "\<forall>j v. j2len j = Some v \<longrightarrow> v \<le> run_length np j \<and> 0 < i \<and> v \<le> run_length np (i - 1)"
    and diag: "j2lenget j2len i = (if i = 0 then 0 else run_length np (i - 1))"
    and npi: "np i" and "i < n"
    and "sorted_wrt (<) rs" and "\<forall>j\<in>set rs. j < n \<and> np j"
    and "bi = bj" and "bi + bs \<le> i + 1" and "\<forall>j<i. run_length np j \<le> bs"
    and "i \<notin> set rs \<longrightarrow> run_length np i \<le> bs \<and> newj2len i = Some (run_length np i)"
    and "\<forall>j v. newj2len j = Some v \<longrightarrow> v \<le> run_length np j \<and> v \<le> run_length np i"
    and "flm_row i 0 n j2len rs newj2len (bi, bj, bs) = (nj, (bi', bj', bs'))"
  shows "bi' = bj' \<and> bi' + bs' \<le> i + 1 \<and> (\<forall>j\<le>i. run_length np j \<le> bs')
         \<and> (\<forall>j v. nj j = Some v \<longrightarrow> v \<le> run_length np j \<and> v \<le> run_length np i)
         \<and> nj i = Some (run_length np i)"
  using assms(5-)
proof (induction rs arbitrary: newj2len bi bj bs)
  case Nil
  then show ?case by (auto simp: le_less)
next
  case (Cons j rs)
  let ?k = "j2lenget j2len j + 1"
  have jn: "j < n" and npj: "np j" using Cons.prems(2) by auto
  have srs: "sorted_wrt (<) rs" and jrs: "\<forall>x\<in>set rs. j < x" using Cons.prems(1) by auto
  have rsn: "\<forall>j\<in>set rs. j < n \<and> np j" using Cons.prems(2) by auto
  have kb: "?k \<le> run_length np j" "?k \<le> run_length np i"
    using j2lenget_run[OF prev npj npi] by auto
  have ki: "j = i \<Longrightarrow> ?k = run_length np i"
    using diag npi by (simp add: run_length_step)
  have newv: "\<forall>j' v. (newj2len(j \<mapsto> ?k)) j' = Some v \<longrightarrow> v \<le> run_length np j' \<and> v \<le> run_length np i"
    using Cons.prems(7) kb by auto
  show ?case
  proof (cases "bs < ?k")
    case True
    have ji: "j = i"
    proof (rule ccontr)
      assume ne: "j \<noteq> i"
      show False
      proof (cases "j < i")
        case True
        with Cons.prems(5) have "run_length np j \<le> bs" by simp
        with kb(1) \<open>bs < ?k\<close> show False by simp
      next
        case False
        with ne have "i < j" by simp
        with jrs have "i \<notin> set (j # rs)" by auto
        with Cons.prems(6) have "run_length np i \<le> bs" by simp
        with kb(2) \<open>bs < ?k\<close> show False by simp
      qed
    qed
    have step: "flm_row i 0 n j2len rs (newj2len(j \<mapsto> ?k)) (i + 1 - ?k, j + 1 - ?k, ?k) = (nj, (bi', bj', bs'))"
      using Cons.prems(8) jn True by (simp add: Let_def)
    have k1: "?k \<le> i + 1" using kb(2) run_length_le[of np i] by simp
    have a3: "i + 1 - ?k = j + 1 - ?k" using ji by simp
    have a4: "i + 1 - ?k + ?k \<le> i + 1" using k1 by simp
    have a5: "\<forall>j<i. run_length np j \<le> ?k" using Cons.prems(5) True by auto
    have a6: "i \<notin> set rs \<longrightarrow> run_length np i \<le> ?k \<and> (newj2len(j \<mapsto> ?k)) i = Some (run_length np i)"
      using ki ji by simp
    show ?thesis
      using Cons.IH[OF srs rsn a3 a4 a5 a6 newv step] .
  next
    case False
    have step: "flm_row i 0 n j2len rs (newj2len(j \<mapsto> ?k)) (bi, bj, bs) = (nj, (bi', bj', bs'))"
      using Cons.prems(8) jn False by (simp add: Let_def)
    have a6: "i \<notin> set rs \<longrightarrow> run_length np i \<le> bs \<and> (newj2len(j \<mapsto> ?k)) i = Some (run_length np i)"
    proof (cases "j = i")
      case True
      with ki False show ?thesis by simp
    next
      case ne: False
      with Cons.prems(6) show ?thesis by auto
    qed
    show ?thesis
      using Cons.IH[OF srs rsn Cons.prems(3) Cons.prems(4) Cons.prems(5) a6 newv step] .
  qed
qed

lemma chain_b_cases:
  "chain_b a c = [] \<or> chain_b a c = filter (\<lambda>j. a ! j = c) [0..<length a]"
  by (simp add: chain_b_def Let_def)

lemma flm_rows_diag:
  assumes n: "n = length a" and np: "np = (\<lambda>i. chain_b a (a ! i) \<noteq> [])"
    and "\<forall>j v. j2len j = Some v \<longrightarrow> v \<le> run_length np j \<and> 0 < i \<and> v \<le> run_length np (i - 1)"
    and "j2lenget j2len i = (if i = 0 then 0 else run_length np (i - 1))"
    and "bi = bj" and "bi + bs \<le> i" and "\<forall>j<i. run_length np j \<le> bs" and "i \<le> n"
    and "flm_rows a (chain_b a) 0 n [i..<n] j2len (bi, bj, bs) = (bi', bj', bs')"
  shows "bi' = bj' \<and> bi' + bs' \<le> n"
  using assms(3-)
proof (induction "n - i" arbitrary: i j2len bi bj bs)
  case 0
  then show ?case by simp
next
  case (Suc m)
  then have lt: "i < n" by simp
  obtain nj ci cj cs where
    row: "flm_row i 0 n j2len (chain_b a (a ! i)) Map.empty (bi, bj, bs) = (nj, (ci, cj, cs))"
    by (metis prod_cases3)
  have rest: "flm_rows a (chain_b a) 0 n [Suc i..<n] nj (ci, cj, cs) = (bi', bj', bs')"
    using Suc.prems(7) lt row by (simp add: upt_conv_Cons)
  have inv: "ci = cj \<and> ci + cs \<le> Suc i \<and> (\<forall>j<Suc i. run_length np j \<le> cs)
         \<and> (\<forall>j v. nj j = Some v \<longrightarrow> v \<le> run_length np j \<and> 0 < Suc i \<and> v \<le> run_length np (Suc i - 1))
         \<and> j2lenget nj (Suc i) = (if Suc i = 0 then 0 else run_length np (Suc i - 1))"
  proof (cases "chain_b a (a ! i) = []")
    case True
    then have "\<not> np i" by (simp add: np)
    then have r0: "run_length np i = 0" by (cases i) auto
    from True row have "nj = Map.empty" "ci = bi" "cj = bj" "cs = bs" by auto
    with Suc.prems r0 show ?thesis by (auto simp: j2lenget_def less_Suc_eq)
  next
    case False
    then have npi: "np i" by (simp add: np)
    from False chain_b_cases[of a "a ! i"]
    have js: "chain_b a (a ! i) = filter (\<lambda>j. a ! j = a ! i) [0..<n]" by (auto simp: n)
    have s: "sorted_wrt (<) (chain_b a (a ! i))"
      unfolding js by (rule sorted_wrt_filter) simp
    have m: "\<forall>j\<in>set (chain_b a (a ! i)). j < n \<and> np j"
      using False by (auto simp: js np)
    have iin: "i \<in> set (chain_b a (a ! i))" using lt by (simp add: js)
    have r: "ci = cj \<and> ci + cs \<le> i + 1 \<and> (\<forall>j\<le>i. run_length np j \<le> cs)
         \<and> (\<forall>j v. nj j = Some v \<longrightarrow> v \<le> run_length np j \<and> v \<le> run_length np i)
         \<and> nj i = Some (run_length np i)"
      using flm_row_diag[OF Suc.prems(1) Suc.prems(2) npi lt s m Suc.prems(3) _ Suc.prems(5) _ _ row]
        Suc.prems(4) iin by simp
    then show ?thesis by (auto simp: j2lenget_def less_Suc_eq_le)
  qed
  have "Suc i \<le> n" using lt by simp
  moreover have "m = n - Suc i" using Suc.hyps(2) by simp
  ultimately show ?case
    using Suc.hyps(1)[of "Suc i" nj ci cj cs] inv rest by blast
qed

lemma extend_left_same: "extend_left a a 0 0 (d, d, s) = (0, 0, d + s)"
proof (induction d arbitrary: s)
  case 0
  show ?case by (subst extend_left.simps) simp
next
  case (Suc d)
  show ?case by (subst extend_left.simps) (simp add: Suc)
qed

lemma extend_right_same:
  "s \<le> length a \<Longrightarrow> extend_right a a (length a) (length a) (0, 0, s) = (0, 0, length a)"
proof (induction "length a - s" arbitrary: s)
  case 0
  then show ?case by (subst extend_right.simps) simp
next
  case (Suc m)
  then have lt: "s < length a" and "m = length a - (s + 1)" by simp_all
  with Suc.hyps(1)[of "s + 1"] have "extend_right a a (length a) (length a) (0, 0, s + 1) = (0, 0, length a)"
    by simp
  with lt show ?case by (subst extend_right.simps) simp
qed

lemma find_longest_match_same:
  "find_longest_match a a (chain_b a) 0 (length a) 0 (length a) = (0, 0, length a)"
proof -
  obtain bi bj bs where
    r: "flm_rows a (chain_b a) 0 (length a) [0..<length a] Map.empty (0, 0, 0) = (bi, bj, bs)"
    by (metis prod_cases3)
  have d: "bi = bj \<and> bi + bs \<le> length a"
    by (rule flm_rows_diag[OF refl refl _ _ _ _ _ _ r]) (simp_all add: j2lenget_def)
  then have "extend_left a a 0 0 (bi, bj, bs) = (0, 0, bi + bs)"
    using extend_left_same[of a bi bs] by simp
  with r d show ?thesis
    by (simp add: find_longest_match_def extend_right_same)
qed

lemma blocks_loop_same:
  "blocks_loop a a (chain_b a) [(0, length a, 0, length a)] [] =
     (if a = [] then [] else [(0, 0, length a)])"
  by (simp add: blocks_loop.simps(2)[of a a "chain_b a" 0 "length a" 0 "length a" "[]" "[]"]
        find_longest_match_same blocks_loop.simps(1))

lemma get_matching_blocks_same:
  "get_matching_blocks a a = (if a = [] then [] else [(0, 0, length a)]) @ [(length a, length a, 0)]"
  by (simp add: get_matching_blocks_def Let_def blocks_loop_same)

lemma ratio_same: "ratio a a = 1"
  by (simp add: ratio_def get_matching_blocks_same calculate_ratio_def)

lemma flm_row_empty_b: "flm_row i 0 0 j2len js newj2len best = (newj2len, best)"
  by (cases js; cases best) auto

lemma flm_rows_empty_b: "flm_rows a b2j 0 0 is j2len best = best"
  by (induction "is" arbitrary: j2len best) (auto simp: flm_row_empty_b)

lemma find_longest_match_empty_a: "find_longest_match [] b b2j 0 0 0 bhi = (0, 0, 0)"
  by (simp add: find_longest_match_def extend_left.simps extend_right.simps)

lemma find_longest_match_empty_b: "find_longest_match a [] b2j 0 ahi 0 0 = (0, 0, 0)"
  by (simp add: find_longest_match_def flm_rows_empty_b extend_left.simps extend_right.simps)

lemma ratio_empty_a: "ratio [] b = (if b = [] then 1 else 0)"
  by (simp add: ratio_def get_matching_blocks_def Let_def calculate_ratio_def
        blocks_loop.simps(2)[of "[]" b "chain_b b" 0 0 0 "length b" "[]" "[]"]
        find_longest_match_empty_a blocks_loop.simps(1))

lemma ratio_empty_b: "ratio a [] = (if a = [] then 1 else 0)"
  by (simp add: ratio_def get_matching_blocks_def Let_def calculate_ratio_def
        blocks_loop.simps(2)[of a "[]" "chain_b []" 0 "length a" 0 0 "[]" "[]"]
        find_longest_match_empty_b blocks_loop.simps(1))

subsection \<open>The loop of check\_duplicate, one existing submission at a time\<close>

lemma check_duplicate_body_append:
  "check_duplicate_body resolve new e (ds, cs) =
     (ds @ fst (check_duplicate_body resolve new e ([], [])),
      cs @ snd (check_duplicate_body resolve new e ([], [])))"
  by (simp add: check_duplicate_body_def Let_def)

lemma check_duplicate_loop_concat:
  "check_duplicate_loop resolve new es (ds, cs) =
     (ds @ concat (map (\<lambda>e. fst (check_duplicate_body resolve new e ([], []))) es),
      cs @ concat (map (\<lambda>e. snd (check_duplicate_body resolve new e ([], []))) es))"
proof (induction es arbitrary: ds cs)
  case Nil
  show ?case by simp
next
  case (Cons e es)
  show ?case
    by (subst check_duplicate_loop.simps, subst check_duplicate_body_append)
       (simp add: Cons.IH)
qed

lemma body_matches_submission:
  "m \<in> set (fst (check_duplicate_body resolve new e ([], []))) \<Longrightarrow> submission m = e"
  by (auto simp: check_duplicate_body_def Let_def split: if_splits)

lemma body_calls_submission:
  "c \<in> set (snd (check_duplicate_body resolve new e ([], []))) \<Longrightarrow> snd c = e"
  by (auto simp: check_duplicate_body_def Let_def split: if_splits)

lemma set_sort_reverse [simp]: "set (sort_reverse key xs) = set xs"
  by (simp add: sort_reverse_def)

lemma filter_sort_reverse:
  "filter P (sort_reverse key xs) = sort_reverse key (filter P xs)"
proof -
  have "filter P (rev (sort_key key (rev xs))) = rev (filter P (sort_key key (rev xs)))"
    by (simp only: rev_filter)
  also have "\<dots> = rev (sort_key key (filter P (rev xs)))"
    by (simp only: filter_sort)
  also have "\<dots> = rev (sort_key key (rev (filter P xs)))"
    by (simp only: rev_filter)
  finally show ?thesis by (simp only: sort_reverse_def)
qed

lemma length_sort_reverse [simp]: "length (sort_reverse key xs) = length xs"
  by (simp add: sort_reverse_def)

lemma sort_reverse_stable:
  "filter (\<lambda>x. key x = k) (sort_reverse key xs) = filter (\<lambda>x. key x = k) xs"
  by (simp add: sort_reverse_def rev_filter[symmetric] sort_key_stable)

lemma sort_reverse_descending: "sorted (rev (map key (sort_reverse key xs)))"
  by (simp add: sort_reverse_def rev_map[symmetric])

lemma mset_sort_reverse [simp]: "mset (sort_reverse key xs) = mset xs"
  by (simp add: sort_reverse_def)

lemma set_check_duplicate:
  "set (snd (check_duplicate resolve new es)) =
     (\<Union>e\<in>set es. set (fst (check_duplicate_body resolve new e ([], []))))"
  by (simp add: check_duplicate_def Let_def check_duplicate_loop_concat)

lemma set_similarity_calls:
  "set (similarity_calls resolve new es) =
     (\<Union>e\<in>set es. set (snd (check_duplicate_body resolve new e ([], []))))"
  by (simp add: similarity_calls_def check_duplicate_loop_concat)

lemma filter_concat_matches:
  "length (filter (\<lambda>m. submission m = e)
       (concat (map (\<lambda>e. fst (check_duplicate_body resolve new e ([], []))) es))) =
     count_list es e * length (fst (check_duplicate_body resolve new e ([], [])))"
proof (induction es)
  case Nil
  show ?case by simp
next
  case (Cons x es)
  have "filter (\<lambda>m. submission m = e) (fst (check_duplicate_body resolve new x ([], []))) =
        (if x = e then fst (check_duplicate_body resolve new x ([], [])) else [])"
    by (auto simp: filter_empty_conv filter_id_conv dest: body_matches_submission)
  with Cons show ?case by simp
qed

lemma length_filter_check_duplicate:
  "length (filter (\<lambda>m. submission m = e) (snd (check_duplicate resolve new es))) =
     count_list es e * length (fst (check_duplicate_body resolve new e ([], [])))"
  by (simp add: check_duplicate_def Let_def check_duplicate_loop_concat
        filter_sort_reverse filter_concat_matches)

subsection \<open>Evaluated hashes and similarities\<close>

lemma compute_hash_cong:
  "normalize_text t1 = normalize_text t2 \<Longrightarrow> compute_hash t1 = compute_hash t2"
  by (simp add: compute_hash_def)

lemma hash_a: "compute_hash ''a'' = ''ca978112ca1bbdcafac231b39a23dc4da786eff8147c4e72b9807785afee48bb''"
  by code_simp

lemma hash_b: "compute_hash ''b'' = ''3e23e8160039594a33894f6564e1b1348bbd7a0088d42c4acb73eeaed59c009d''"
  by code_simp

lemma hash_a_b: "compute_hash ''a'' \<noteq> compute_hash ''b''"
  by (simp add: hash_a hash_b)

lemma sim_ab_abc: "compute_similarity ''abc'' ''ab'' = 4 / 5"
  by code_simp

lemma hash_A: "compute_hash ''A!'' = compute_hash ''a''"
  by (rule compute_hash_cong) code_simp

lemma bang_char:
  "lower_char CHR ''!'' = CHR ''!''" "\<not> is_word CHR ''!''" "\<not> is_space CHR ''!''"
  by code_simp+

lemma normalize_bangs: "normalize_text (c # replicate n CHR ''!'') = normalize_text [c]"
  by (simp add: normalize_text_def Let_def bang_char)

lemma hash_long_a: "compute_hash (CHR ''a'' # replicate 99 CHR ''!'') = compute_hash ''a''"
  by (rule compute_hash_cong) (rule normalize_bangs)

lemma hash_long_b: "compute_hash (CHR ''b'' # replicate 99 CHR ''!'') = compute_hash ''b''"
  by (rule compute_hash_cong) (rule normalize_bangs)

lemma sim_abc_xyz: "compute_similarity ''abc'' ''xyz'' = 0"
  by code_simp

lemma sim_a_b: "compute_similarity ''a'' ''b'' = 0"
  by code_simp

lemma sim_long:
  "compute_similarity (CHR ''a'' # replicate 99 CHR ''!'') (CHR ''b'' # replicate 99 CHR ''!'') = 0"
  using sim_a_b by (simp add: compute_similarity_def normalize_bangs)

lemma thresholds:
  "TITLE_SIMILARITY_THRESHOLD = 4 / 5" "CONTENT_SIMILARITY_THRESHOLD = 3 / 5"
  "MIN_CONTENT_LENGTH = 100"
  by (simp_all add: TITLE_SIMILARITY_THRESHOLD_def CONTENT_SIMILARITY_THRESHOLD_def
        MIN_CONTENT_LENGTH_def)

subsection \<open>The loop body on the example submissions\<close>

lemma ex_paths:
  "path ex_same_content \<noteq> path ex_new" "path ex_close_title \<noteq> path ex_new"
  "path ex_close_title2 \<noteq> path ex_new" "path ex_other \<noteq> path ex_new"
  "path ex_untitled_old \<noteq> path ex_untitled_new" "path ex_long_old \<noteq> path ex_long_new"
  by (simp_all add: ex_new_def ex_same_content_def ex_close_title_def ex_close_title2_def
        ex_other_def ex_untitled_new_def ex_untitled_old_def ex_long_new_def ex_long_old_def)

lemma ex_hashes:
  "hash ex_same_content = hash ex_new" "hash ex_close_title \<noteq> hash ex_new"
  "hash ex_close_title2 \<noteq> hash ex_new" "hash ex_other \<noteq> hash ex_new"
  "hash ex_untitled_old \<noteq> hash ex_untitled_new" "hash ex_long_old \<noteq> hash ex_long_new"
  using hash_a_b
  by (simp_all add: ex_new_def ex_same_content_def ex_close_title_def ex_close_title2_def
        ex_other_def ex_untitled_new_def ex_untitled_old_def ex_long_new_def ex_long_old_def
        hash_A hash_long_a hash_long_b)

lemma body_ex_same:
  "check_duplicate_body id ex_new ex_same_content ([], []) =
     ([\<lparr>submission = ex_same_content, reason = ExactContentMatch, similarity = 1\<rparr>], [])"
  using ex_paths(1) ex_hashes(1) by (simp add: check_duplicate_body_def)

lemma body_ex_close:
  "check_duplicate_body id ex_new ex_close_title ([], []) =
     ([\<lparr>submission = ex_close_title, reason = SimilarTitle (4 / 5), similarity = 4 / 5\<rparr>],
      [(TitleSimilarity, ex_close_title)])"
proof -
  have "compute_similarity (title ex_new) (title ex_close_title) = 4 / 5"
    by (simp add: ex_new_def ex_close_title_def sim_ab_abc)
  with ex_paths(2) ex_hashes(2) show ?thesis
    by (simp add: check_duplicate_body_def Let_def thresholds)
qed

lemma body_ex_close2:
  "check_duplicate_body id ex_new ex_close_title2 ([], []) =
     ([\<lparr>submission = ex_close_title2, reason = SimilarTitle (4 / 5), similarity = 4 / 5\<rparr>],
      [(TitleSimilarity, ex_close_title2)])"
proof -
  have "compute_similarity (title ex_new) (title ex_close_title2) = 4 / 5"
    by (simp add: ex_new_def ex_close_title2_def sim_ab_abc)
  with ex_paths(3) ex_hashes(3) show ?thesis
    by (simp add: check_duplicate_body_def Let_def thresholds)
qed

lemma body_ex_other:
  "check_duplicate_body id ex_new ex_other ([], []) = ([], [(TitleSimilarity, ex_other)])"
proof -
  have "compute_similarity (title ex_new) (title ex_other) = 0"
    by (simp add: ex_new_def ex_other_def sim_abc_xyz)
  moreover have "length (content ex_new) = 1" by (simp add: ex_new_def)
  ultimately show ?thesis using ex_paths(4) ex_hashes(4)
    by (simp add: check_duplicate_body_def Let_def thresholds)
qed

lemma body_ex_long:
  "check_duplicate_body id ex_long_new ex_long_old ([], []) =
     ([], [(TitleSimilarity, ex_long_old), (ContentSimilarity, ex_long_old)])"
proof -
  have "compute_similarity (title ex_long_new) (title ex_long_old) = 0"
    by (simp add: ex_long_new_def ex_long_old_def sim_abc_xyz)
  moreover have "compute_similarity (content ex_long_new) (content ex_long_old) = 0"
    by (simp add: ex_long_new_def ex_long_old_def sim_long)
  moreover have "length (content ex_long_new) = 100" "length (content ex_long_old) = 100"
    by (simp_all add: ex_long_new_def ex_long_old_def)
  ultimately show ?thesis using ex_paths(6) ex_hashes(6)
    by (simp add: check_duplicate_body_def Let_def thresholds)
qed

lemma body_content_call:
  "(ContentSimilarity, x) \<in> set (snd (check_duplicate_body resolve new e ([], [])))
   \<longleftrightarrow> x = e \<and> resolve (path e) \<noteq> resolve (path new) \<and> hash e \<noteq> hash new
       \<and> compute_similarity (title new) (title e) < TITLE_SIMILARITY_THRESHOLD
       \<and> MIN_CONTENT_LENGTH \<le> length (content new) \<and> MIN_CONTENT_LENGTH \<le> length (content e)"
  by (auto simp: check_duplicate_body_def Let_def not_le split: if_splits)

lemma content_call_iff:
  "(ContentSimilarity, e) \<in> set (similarity_calls resolve new es)
   \<longleftrightarrow> e \<in> set es \<and> resolve (path e) \<noteq> resolve (path new) \<and> hash e \<noteq> hash new
       \<and> compute_similarity (title new) (title e) < TITLE_SIMILARITY_THRESHOLD
       \<and> MIN_CONTENT_LENGTH \<le> length (content new) \<and> MIN_CONTENT_LENGTH \<le> length (content e)"
  by (auto simp: set_similarity_calls body_content_call)

lemma body_content_match:
  "m \<in> set (fst (check_duplicate_body resolve new e ([], []))) \<Longrightarrow> reason m = SimilarContent s
   \<Longrightarrow> MIN_CONTENT_LENGTH \<le> length (content new) \<and> MIN_CONTENT_LENGTH \<le> length (content e)"
  by (auto simp: check_duplicate_body_def Let_def split: if_splits)

subsection \<open>The shape of a digest\<close>

lemma length_sha_round [simp]: "length (sha_round s kw) = length s"
  by (auto simp: sha_round_def Let_def split: list.splits)

lemma length_foldl_sha_round [simp]: "length (foldl sha_round hs xs) = length hs"
  by (induction xs arbitrary: hs) simp_all

lemma length_compress [simp]: "length (compress hs block) = length hs"
  by (simp add: compress_def Let_def)

lemma length_sha_blocks [simp]: "length (sha_blocks hs bs) = length hs"
proof (induction hs bs rule: sha_blocks.induct)
  case (1 hs bs)
  show ?case
  proof (cases "length bs < 64")
    case True
    then show ?thesis by (subst sha_blocks.simps) simp
  next
    case False
    with 1 show ?thesis by (subst sha_blocks.simps) simp
  qed
qed

lemma length_be_bytes [simp]: "length (be_bytes k w) = k"
  by (simp add: be_bytes_def)

lemma length_concat_const:
  "\<forall>x\<in>set xs. length (f x) = k \<Longrightarrow> length (concat (map f xs)) = k * length xs"
  by (induction xs) simp_all

lemma length_sha256: "length (sha256 m) = 32"
  by (simp add: sha256_def length_concat_const[where k = 4] H256_def)

lemma length_hexdigest: "length (hexdigest bs) = 2 * length bs"
  by (simp add: hexdigest_def length_concat_const[where k = 2])

lemma hex_digit_lower: "hex_digit n \<in> set ''0123456789abcdef''"
  unfolding hex_digit_def by (rule nth_mem) simp

lemma set_hexdigest: "c \<in> set (hexdigest bs) \<Longrightarrow> c \<in> set ''0123456789abcdef''"
  using hex_digit_lower by (auto simp: hexdigest_def)

lemma load_submission_hash:
  "load_submission env f = Some s
   \<Longrightarrow> dict_hash s = compute_hash (dict_content s) \<and> dict_path s = f"
  by (auto simp: load_submission_def split: option.splits)

subsection \<open>Empty titles\<close>

lemma compute_similarity_empty:
  "normalize_text t1 = [] \<Longrightarrow>
     compute_similarity t1 t2 = (if normalize_text t2 = [] then 1 else 0)
     \<and> compute_similarity t2 t1 = (if normalize_text t2 = [] then 1 else 0)"
  by (simp add: compute_similarity_def ratio_empty_a ratio_empty_b)

lemma body_title_hit:
  assumes "resolve (path e) \<noteq> resolve (path new)" and "hash e \<noteq> hash new"
    and "TITLE_SIMILARITY_THRESHOLD \<le> compute_similarity (title new) (title e)"
  shows "check_duplicate_body resolve new e ([], []) =
     ([\<lparr>submission = e, reason = SimilarTitle (compute_similarity (title new) (title e)),
         similarity = compute_similarity (title new) (title e)\<rparr>],
      [(TitleSimilarity, e)])"
  using assms by (simp add: check_duplicate_body_def Let_def)

lemma body_title_miss:
  assumes "compute_similarity (title new) (title e) < TITLE_SIMILARITY_THRESHOLD"
    and "m \<in> set (fst (check_duplicate_body resolve new e ([], [])))"
  shows "reason m \<noteq> SimilarTitle s"
  using assms by (auto simp: check_duplicate_body_def Let_def split: if_splits)

lemma body_ex_untitled:
  "check_duplicate_body id ex_untitled_new ex_untitled_old ([], []) =
     ([\<lparr>submission = ex_untitled_old, reason = SimilarTitle 1, similarity = 1\<rparr>],
      [(TitleSimilarity, ex_untitled_old)])"
proof -
  have "compute_similarity (title ex_untitled_new) (title ex_untitled_old) = 1"
    by (simp add: ex_untitled_new_def ex_untitled_old_def compute_similarity_def ratio_same)
  with ex_paths(5) ex_hashes(5) show ?thesis
    by (simp add: check_duplicate_body_def Let_def thresholds)
qed

subsection \<open>check\_duplicate on dictionaries with string titles\<close>

lemma compute_similarity_value_strings:
  "compute_similarity_value (YString a) (YString b) = Inr (compute_similarity a b)"
  by (simp add: compute_similarity_value_def normalize_value_def compute_similarity_def)

lemma check_duplicate_dict_body_strings:
  "check_duplicate_dict_body resolve (as_dict new) (as_dict e) (map as_dict_match ds) =
     Inr (map as_dict_match (fst (check_duplicate_body resolve new e (ds, cs))))"
  by (simp add: check_duplicate_dict_body_def check_duplicate_body_def Let_def as_dict_def
        as_dict_match_def compute_similarity_value_strings)

lemma check_duplicate_dict_loop_strings:
  "check_duplicate_dict_loop resolve (as_dict new) (map as_dict es) (map as_dict_match ds) =
     Inr (map as_dict_match (fst (check_duplicate_loop resolve new es (ds, cs))))"
proof (induction es arbitrary: ds cs)
  case Nil
  show ?case by simp
next
  case (Cons e es)
  obtain ds' cs' where b: "check_duplicate_body resolve new e (ds, cs) = (ds', cs')"
    by (cases "check_duplicate_body resolve new e (ds, cs)")
  have "check_duplicate_dict_body resolve (as_dict new) (as_dict e) (map as_dict_match ds) =
     Inr (map as_dict_match ds')"
    using check_duplicate_dict_body_strings[of resolve new e ds cs] by (simp add: b)
  then show ?case by (simp add: b Cons.IH)
qed

lemma insort_key_map:
  "insort_key key (f x) (map f ys) = map f (insort_key (\<lambda>y. key (f y)) x ys)"
  by (induction ys) simp_all

lemma sort_key_map: "sort_key key (map f xs) = map f (sort_key (\<lambda>y. key (f y)) xs)"
  by (induction xs) (simp_all add: insort_key_map)

lemma sort_reverse_map:
  "sort_reverse key (map f xs) = map f (sort_reverse (\<lambda>y. key (f y)) xs)"
  by (simp add: sort_reverse_def rev_map sort_key_map)

lemma check_duplicate_dict_strings:
  "check_duplicate_dict resolve (as_dict new) (map as_dict es) =
     Inr (fst (check_duplicate resolve new es),
          map as_dict_match (snd (check_duplicate resolve new es)))"
proof -
  have m: "(\<lambda>y. match_similarity (as_dict_match y)) = similarity"
    by (simp add: as_dict_match_def fun_eq_iff)
  have "check_duplicate_dict_loop resolve (as_dict new) (map as_dict es) [] =
     Inr (map as_dict_match (fst (check_duplicate_loop resolve new es ([], []))))"
    using check_duplicate_dict_loop_strings[of resolve new es "[]" "[]"] by simp
  then show ?thesis
    by (simp add: check_duplicate_dict_def check_duplicate_def Let_def sort_reverse_map m)
qed

lemma string_title_as_dict:
  "dict_title s = YString t \<Longrightarrow> \<exists>x. s = as_dict x"
  by (rule exI[of _ "\<lparr>path = dict_path s, title = t, content = dict_content s,
                      hash = dict_hash s\<rparr>"]) (simp add: as_dict_def)

lemma check_duplicate_dict_returns:
  assumes "\<exists>t. dict_title new = YString t"
    and "\<forall>s\<in>set es. \<exists>t. dict_title s = YString t"
  shows "\<exists>is_dup duplicates. check_duplicate_dict resolve new es = Inr (is_dup, duplicates)"
proof -
  from assms(1) obtain n where n: "new = as_dict n" using string_title_as_dict by blast
  from assms(2) have "\<forall>s\<in>set es. \<exists>x. s = as_dict x" using string_title_as_dict by blast
  then obtain xs where xs: "es = map as_dict xs" by (metis ex_map_conv)
  show ?thesis unfolding n xs check_duplicate_dict_strings by blast
qed

subsection \<open>The batch loop\<close>

lemma batch_loop_results:
  assumes "\<forall>f\<in>set fs. \<exists>out. file_outcome env all_submissions f = Inr out"
  shows "batch_loop env all_submissions fs (h, r) =
     Inr (h \<or> (\<exists>f\<in>set fs. \<exists>ms. file_outcome env all_submissions f = Inr (Duplicate ms)),
          (\<lambda>f. if f \<in> set fs then Some (projr (file_outcome env all_submissions f)) else r f))"
  using assms
proof (induction fs arbitrary: h r)
  case Nil
  show ?case by simp
next
  case (Cons f fs)
  then have rest: "\<forall>f\<in>set fs. \<exists>out. file_outcome env all_submissions f = Inr out" by simp
  from Cons.prems obtain out where out: "file_outcome env all_submissions f = Inr out" by auto
  show ?case
  proof (cases "load_submission env f")
    case None
    then have fo: "file_outcome env all_submissions f = Inr (Error ''Failed to load submission'')"
      by (simp add: file_outcome_def)
    show ?thesis
      by (simp add: None Cons.IH[OF rest] fo) (auto simp: fun_eq_iff fo)
  next
    case (Some new_sub)
    from out obtain d ms where
      cd: "check_duplicate_dict (resolve_path env) new_sub all_submissions = Inr (d, ms)"
      by (auto simp: file_outcome_def Some split: sum.splits)
    have fo: "file_outcome env all_submissions f = Inr (if d then Duplicate ms else Unique)"
      by (simp add: file_outcome_def Some cd)
    show ?thesis
      by (cases d) (auto simp: Some cd Cons.IH[OF rest] fo fun_eq_iff)
  qed
qed

lemma file_outcome_returns:
  assumes "\<forall>s\<in>set all_submissions. \<exists>t. dict_title s = YString t"
    and "\<forall>s. load_submission env f = Some s \<longrightarrow> (\<exists>t. dict_title s = YString t)"
  shows "\<exists>out. file_outcome env all_submissions f = Inr out"
proof (cases "load_submission env f")
  case None
  then show ?thesis by (simp add: file_outcome_def)
next
  case (Some s)
  with assms(2) have "\<exists>t. dict_title s = YString t" by simp
  from check_duplicate_dict_returns[OF this assms(1), of "resolve_path env"]
  show ?thesis by (auto simp: file_outcome_def Some)
qed

lemma sim_xyz_ab: "compute_similarity ''xyz'' ''ab'' = 0"
  by code_simp

lemma ex_env_corpus: "find_all_submissions ex_env ''.'' = [as_dict ex_close_title]"
  by (simp add: find_all_submissions_def ex_env_def load_submission_def List.map_filter_simps
        ex_close_title_def as_dict_def)

lemma ex_env_loads:
  "load_submission ex_env ''new/first.md'' =
     Some (as_dict \<lparr>path = ''new/first.md'', title = ''abc'', content = ''a'',
                     hash = compute_hash ''a''\<rparr>)"
  "load_submission ex_env ''new/missing.md'' = None"
  "load_submission ex_env ''new/second.md'' =
     Some (as_dict \<lparr>path = ''new/second.md'', title = ''xyz'', content = ''a'',
                     hash = compute_hash ''a''\<rparr>)"
  by (simp_all add: ex_env_def load_submission_def as_dict_def)

lemma ex_env_first:
  "check_duplicate (\<lambda>p. p)
     \<lparr>path = ''new/first.md'', title = ''abc'', content = ''a'', hash = compute_hash ''a''\<rparr>
     [ex_close_title] =
   (True, [\<lparr>submission = ex_close_title, reason = SimilarTitle (4 / 5), similarity = 4 / 5\<rparr>])"
proof -
  have "check_duplicate_body (\<lambda>p. p)
     \<lparr>path = ''new/first.md'', title = ''abc'', content = ''a'', hash = compute_hash ''a''\<rparr>
     ex_close_title ([], []) =
     ([\<lparr>submission = ex_close_title, reason = SimilarTitle (4 / 5), similarity = 4 / 5\<rparr>],
      [(TitleSimilarity, ex_close_title)])"
    using hash_a_b
    by (simp add: check_duplicate_body_def Let_def thresholds ex_close_title_def sim_ab_abc)
  then show ?thesis
    by (simp add: check_duplicate_def Let_def sort_reverse_def)
qed

lemma ex_env_second:
  "check_duplicate (\<lambda>p. p)
     \<lparr>path = ''new/second.md'', title = ''xyz'', content = ''a'', hash = compute_hash ''a''\<rparr>
     [ex_close_title] = (False, [])"
proof -
  have "check_duplicate_body (\<lambda>p. p)
     \<lparr>path = ''new/second.md'', title = ''xyz'', content = ''a'', hash = compute_hash ''a''\<rparr>
     ex_close_title ([], []) = ([], [(TitleSimilarity, ex_close_title)])"
    using hash_a_b
    by (simp add: check_duplicate_body_def Let_def thresholds ex_close_title_def sim_xyz_ab)
  then show ?thesis
    by (simp add: check_duplicate_def Let_def sort_reverse_def)
qed

lemma ex_env_outcomes:
  "file_outcome ex_env [as_dict ex_close_title] ''new/first.md'' =
     Inr (Duplicate [as_dict_match \<lparr>submission = ex_close_title, reason = SimilarTitle (4 / 5),
                                    similarity = 4 / 5\<rparr>])"
  "file_outcome ex_env [as_dict ex_close_title] ''new/missing.md'' =
     Inr (Error ''Failed to load submission'')"
  "file_outcome ex_env [as_dict ex_close_title] ''new/second.md'' = Inr Unique"
proof -
  have rp: "resolve_path ex_env = (\<lambda>p. p)" by (simp add: ex_env_def)
  show "file_outcome ex_env [as_dict ex_close_title] ''new/first.md'' =
     Inr (Duplicate [as_dict_match \<lparr>submission = ex_close_title, reason = SimilarTitle (4 / 5),
                                    similarity = 4 / 5\<rparr>])"
    using check_duplicate_dict_strings[of "\<lambda>p. p" _ "[ex_close_title]"]
    by (simp add: file_outcome_def ex_env_loads rp ex_env_first)
  show "file_outcome ex_env [as_dict ex_close_title] ''new/missing.md'' =
     Inr (Error ''Failed to load submission'')"
    by (simp add: file_outcome_def ex_env_loads)
  show "file_outcome ex_env [as_dict ex_close_title] ''new/second.md'' = Inr Unique"
    using check_duplicate_dict_strings[of "\<lambda>p. p" _ "[ex_close_title]"]
    by (simp add: file_outcome_def ex_env_loads rp ex_env_second)
qed

text \<open>
  A title that is not a string: the comparison of the titles raises, and the exception
  ends the batch. The file with \<^verbatim>\<open>title: 2024\<close> loads without an error.
\<close>

lemma non_string_title_aborts:
  "load_submission ex_env_number_title ''new/numbered.md'' =
     Some \<lparr>dict_path = ''new/numbered.md'', dict_title = YOther, dict_content = ''a'',
           dict_hash = compute_hash ''a''\<rparr>
   \<and> check_submissions_for_duplicates ex_env_number_title
        [''new/first.md'', ''new/numbered.md'', ''new/second.md''] ''.'' = Inl AttributeError"
proof -
  have l: "load_submission ex_env_number_title ''new/numbered.md'' =
     Some \<lparr>dict_path = ''new/numbered.md'', dict_title = YOther, dict_content = ''a'',
           dict_hash = compute_hash ''a''\<rparr>"
    by (simp add: ex_env_number_title_def load_submission_def)
  have l1: "load_submission ex_env_number_title ''new/first.md'' =
      load_submission ex_env ''new/first.md''"
    by (simp add: ex_env_number_title_def load_submission_def)
  have c: "find_all_submissions ex_env_number_title ''.'' = [as_dict ex_close_title]"
    by (simp add: find_all_submissions_def ex_env_number_title_def ex_env_def
          load_submission_def List.map_filter_simps ex_close_title_def as_dict_def)
  have rp: "resolve_path ex_env_number_title = (\<lambda>p. p)"
    by (simp add: ex_env_number_title_def ex_env_def)
  have d1: "check_duplicate_dict (\<lambda>p. p)
      (as_dict \<lparr>path = ''new/first.md'', title = ''abc'', content = ''a'',
                hash = compute_hash ''a''\<rparr>) [as_dict ex_close_title] =
      Inr (True, [as_dict_match \<lparr>submission = ex_close_title, reason = SimilarTitle (4 / 5),
                                similarity = 4 / 5\<rparr>])"
    using check_duplicate_dict_strings[of "\<lambda>p. p" _ "[ex_close_title]"]
    by (simp add: ex_env_first)
  have d2: "check_duplicate_dict (\<lambda>p. p)
      \<lparr>dict_path = ''new/numbered.md'', dict_title = YOther, dict_content = ''a'',
        dict_hash = compute_hash ''a''\<rparr> [as_dict ex_close_title] = Inl AttributeError"
    using hash_a_b
    by (simp add: check_duplicate_dict_def check_duplicate_dict_body_def as_dict_def
          ex_close_title_def compute_similarity_value_def normalize_value_def)
  have "check_submissions_for_duplicates ex_env_number_title
        [''new/first.md'', ''new/numbered.md'', ''new/second.md''] ''.'' = Inl AttributeError"
    by (simp add: check_submissions_for_duplicates_def c l l1 ex_env_loads rp d1 d2)
  with l show ?thesis by simp
qed

subsection \<open>Further evaluations on the examples\<close>

lemma hash_long_same: "hash ex_long_same = hash ex_long_new"
proof -
  have "normalize_text [CHR ''A''] = normalize_text ''a''" by code_simp
  then have "normalize_text (CHR ''A'' # replicate 99 CHR ''!'')
      = normalize_text (CHR ''a'' # replicate 99 CHR ''!'')"
    by (simp only: normalize_bangs)
  then have "compute_hash (CHR ''A'' # replicate 99 CHR ''!'')
      = compute_hash (CHR ''a'' # replicate 99 CHR ''!'')"
    by (rule compute_hash_cong)
  then show ?thesis
    by (simp add: ex_long_same_def ex_long_new_def)
qed

lemma ex_env_in_place_corpus:
  "find_all_submissions ex_env_in_place ''.'' = [as_dict ex_new, as_dict ex_same_content]"
  by (simp add: find_all_submissions_def ex_env_in_place_def load_submission_def
        List.map_filter_simps ex_new_def ex_same_content_def as_dict_def)

lemma ex_env_in_place_loads:
  "load_submission ex_env_in_place ''submissions/2024/new.md'' = Some (as_dict ex_new)"
  "load_submission ex_env_in_place ''submissions/2023/same.md'' = Some (as_dict ex_same_content)"
  by (simp_all add: ex_env_in_place_def load_submission_def ex_new_def ex_same_content_def
        as_dict_def)

lemma body_ex_self:
  "check_duplicate_body (\<lambda>p. p) new new st = st"
  by (cases st) (simp add: check_duplicate_body_def)

lemma ex_in_place_new:
  "check_duplicate (\<lambda>p. p) ex_new [ex_new, ex_same_content] =
     (True, [\<lparr>submission = ex_same_content, reason = ExactContentMatch, similarity = 1\<rparr>])"
proof -
  have "check_duplicate_body (\<lambda>p. p) ex_new ex_same_content ([], []) =
     ([\<lparr>submission = ex_same_content, reason = ExactContentMatch, similarity = 1\<rparr>], [])"
    using ex_paths(1) ex_hashes(1) by (simp add: check_duplicate_body_def)
  then show ?thesis
    by (simp add: check_duplicate_def Let_def body_ex_self sort_reverse_def)
qed

lemma ex_in_place_same:
  "check_duplicate (\<lambda>p. p) ex_same_content [ex_new, ex_same_content] =
     (True, [\<lparr>submission = ex_new, reason = ExactContentMatch, similarity = 1\<rparr>])"
proof -
  have "check_duplicate_body (\<lambda>p. p) ex_same_content ex_new ([], []) =
     ([\<lparr>submission = ex_new, reason = ExactContentMatch, similarity = 1\<rparr>], [])"
    using ex_paths(1) ex_hashes(1) by (simp add: check_duplicate_body_def)
  then show ?thesis
    by (simp add: check_duplicate_def Let_def body_ex_self sort_reverse_def)
qed

section \<open>Properties of the similarity scorer\<close>

text \<open>
  Claim C3: \<^verbatim>\<open>compute_similarity(A, B)\<close> is exactly 1.0 whenever the two texts have the same
  normal form; in particular \<^verbatim>\<open>compute_similarity(A, A)\<close> is 1.0 for every text \<^verbatim>\<open>A\<close>.
\<close>

theorem compute_similarity_identical:
  "(normalize_text A = normalize_text B \<longrightarrow> compute_similarity A B = 1)
   \<and> compute_similarity A A = 1"
  by (simp add: compute_similarity_def ratio_same)

theorem compute_similarity_identical_witness:
  "normalize_text ''Hello, World!'' = normalize_text ''hello   world''
   \<and> compute_similarity ''Hello, World!'' ''hello   world'' = 1
   \<and> compute_similarity ''Hello, World!'' ''Hello, World!'' = 1"
proof -
  have h: "normalize_text ''Hello, World!'' = normalize_text ''hello   world''"
    by code_simp
  from compute_similarity_identical[of "''Hello, World!''" "''hello   world''"] h
  show ?thesis by blast
qed

text \<open>
  Claim C2 as stated, symmetry for all texts, fails: the matcher looks the elements of
  its first argument up in its second, and the two orders find different blocks.
\<close>

theorem compute_similarity_asymmetric:
  "compute_similarity ''tide'' ''diet'' = 1 / 4 \<and> compute_similarity ''diet'' ''tide'' = 1 / 2
   \<and> compute_similarity ''tide'' ''diet'' \<noteq> compute_similarity ''diet'' ''tide''"
proof -
  have a: "compute_similarity ''tide'' ''diet'' = 1 / 4" by code_simp
  have b: "compute_similarity ''diet'' ''tide'' = 1 / 2" by code_simp
  from a b show ?thesis by simp
qed

text \<open>
  Claim C2, as amended: compute_similarity(A, B) = compute_similarity(B, A) holds whenever the
  two normal forms are equal or one of them is empty; for other texts the two orders
  can give different scores.
\<close>

theorem compute_similarity_symmetric_cases:
  assumes "normalize_text A = normalize_text B \<or> normalize_text A = [] \<or> normalize_text B = []"
  shows "compute_similarity A B = compute_similarity B A"
  using assms by (auto simp: compute_similarity_def ratio_empty_a ratio_empty_b)

theorem compute_similarity_symmetric_cases_witness:
  "normalize_text ''?!'' = [] \<and> compute_similarity ''?!'' ''abc'' = compute_similarity ''abc'' ''?!''
   \<and> compute_similarity ''?!'' ''abc'' = 0"
proof -
  have n: "normalize_text ''?!'' = []" by code_simp
  have z: "compute_similarity ''?!'' ''abc'' = 0" by code_simp
  from compute_similarity_symmetric_cases[of "''?!''" "''abc''"] n z show ?thesis by simp
qed

section \<open>Properties of check\_duplicate\<close>

text \<open>
  Claim C5: for a pair of records with distinct identities and equal content hash, the
  loop records exactly one match for the pair, with reason ExactContentMatch and
  similarity 1.0, never SimilarTitle or SimilarContent, and calls compute_similarity
  neither for the titles nor for the contents of the pair.
\<close>

theorem exact_hash_match:
  assumes "resolve (path e) \<noteq> resolve (path new)" and "hash e = hash new"
  shows "check_duplicate_body resolve new e (ds, cs) =
           (ds @ [\<lparr>submission = e, reason = ExactContentMatch, similarity = 1\<rparr>], cs)
         \<and> (\<forall>m\<in>set (snd (check_duplicate resolve new es)).
               submission m = e \<longrightarrow> reason m = ExactContentMatch \<and> similarity m = 1)
         \<and> length (filter (\<lambda>m. submission m = e) (snd (check_duplicate resolve new es)))
             = count_list es e
         \<and> (\<forall>c\<in>set (similarity_calls resolve new es). snd c \<noteq> e)"
proof -
  have body: "check_duplicate_body resolve new e ([], []) =
      ([\<lparr>submission = e, reason = ExactContentMatch, similarity = 1\<rparr>], [])"
    using assms by (simp add: check_duplicate_body_def)
  have 1: "check_duplicate_body resolve new e (ds, cs) =
           (ds @ [\<lparr>submission = e, reason = ExactContentMatch, similarity = 1\<rparr>], cs)"
    by (subst check_duplicate_body_append) (simp add: body)
  have 2: "\<forall>m\<in>set (snd (check_duplicate resolve new es)).
               submission m = e \<longrightarrow> reason m = ExactContentMatch \<and> similarity m = 1"
  proof (intro ballI impI)
    fix m assume m: "m \<in> set (snd (check_duplicate resolve new es))" and s: "submission m = e"
    from m obtain x where "m \<in> set (fst (check_duplicate_body resolve new x ([], [])))"
      by (auto simp: set_check_duplicate)
    with s body_matches_submission[of m resolve new x]
    have "m \<in> set (fst (check_duplicate_body resolve new e ([], [])))"
      by simp
    then show "reason m = ExactContentMatch \<and> similarity m = 1" by (simp add: body)
  qed
  have 3: "length (filter (\<lambda>m. submission m = e) (snd (check_duplicate resolve new es)))
             = count_list es e"
    by (simp add: length_filter_check_duplicate body)
  have 4: "\<forall>c\<in>set (similarity_calls resolve new es). snd c \<noteq> e"
  proof
    fix c assume "c \<in> set (similarity_calls resolve new es)"
    then obtain x where x: "c \<in> set (snd (check_duplicate_body resolve new x ([], [])))"
      by (auto simp: set_similarity_calls)
    show "snd c \<noteq> e"
    proof
      assume "snd c = e"
      with x body_calls_submission[OF x]
      have "c \<in> set (snd (check_duplicate_body resolve new e ([], [])))"
        by simp
      then show False by (simp add: body)
    qed
  qed
  from 1 2 3 4 show ?thesis by blast
qed

theorem exact_hash_match_witness:
  "id (path ex_same_content) \<noteq> id (path ex_new) \<and> hash ex_same_content = hash ex_new
   \<and> check_duplicate_body id ex_new ex_same_content ([], []) =
       ([\<lparr>submission = ex_same_content, reason = ExactContentMatch, similarity = 1\<rparr>], [])
   \<and> length (filter (\<lambda>m. submission m = ex_same_content)
        (snd (check_duplicate id ex_new [ex_same_content]))) = 1"
proof -
  have h1: "id (path ex_same_content) \<noteq> id (path ex_new)"
    by (simp add: ex_same_content_def ex_new_def)
  have h2: "hash ex_same_content = hash ex_new"
    by (simp add: ex_same_content_def ex_new_def hash_A)
  from exact_hash_match[OF h1 h2, of "[]" "[]" "[ex_same_content]"] h1 h2
  show ?thesis by (simp del: id_apply)
qed

text \<open>
  Claim C6: for a pair of records with distinct identities and unequal content hashes, a
  SimilarTitle match carrying the computed title score is recorded if and only if the
  title similarity is at least the title threshold 0.8 (a score equal to the threshold
  counts), and when it is recorded, compute_similarity is not called for the contents of
  the pair.
\<close>

theorem similar_title_match:
  assumes "resolve (path e) \<noteq> resolve (path new)" and "hash e \<noteq> hash new"
  shows "TITLE_SIMILARITY_THRESHOLD = 8 / 10
         \<and> ((\<exists>m\<in>set (snd (check_duplicate resolve new es)).
                submission m = e \<and> (\<exists>s. reason m = SimilarTitle s))
              \<longleftrightarrow> e \<in> set es \<and> 8 / 10 \<le> compute_similarity (title new) (title e))
         \<and> (\<forall>m\<in>set (snd (check_duplicate resolve new es)).
               submission m = e \<longrightarrow> (\<exists>s. reason m = SimilarTitle s) \<longrightarrow>
               reason m = SimilarTitle (compute_similarity (title new) (title e))
               \<and> similarity m = compute_similarity (title new) (title e))
         \<and> (8 / 10 \<le> compute_similarity (title new) (title e) \<longrightarrow>
               check_duplicate_body resolve new e (ds, cs) =
                 (ds @ [\<lparr>submission = e,
                         reason = SimilarTitle (compute_similarity (title new) (title e)),
                         similarity = compute_similarity (title new) (title e)\<rparr>],
                  cs @ [(TitleSimilarity, e)])
               \<and> (ContentSimilarity, e) \<notin> set (similarity_calls resolve new es))"
proof -
  let ?ts = "compute_similarity (title new) (title e)"
  let ?b = "check_duplicate_body resolve new e ([], [])"
  have hit: "8 / 10 \<le> ?ts \<Longrightarrow>
      ?b = ([\<lparr>submission = e, reason = SimilarTitle ?ts, similarity = ?ts\<rparr>],
            [(TitleSimilarity, e)])"
    using assms by (simp add: check_duplicate_body_def Let_def TITLE_SIMILARITY_THRESHOLD_def)
  have miss: "\<not> 8 / 10 \<le> ?ts \<Longrightarrow> \<forall>m\<in>set (fst ?b). \<forall>s. reason m \<noteq> SimilarTitle s"
    using assms by (simp add: check_duplicate_body_def Let_def TITLE_SIMILARITY_THRESHOLD_def)
  have own: "m \<in> set (snd (check_duplicate resolve new es)) \<Longrightarrow> submission m = e
      \<Longrightarrow> m \<in> set (fst ?b) \<and> e \<in> set es" for m
    using body_matches_submission[of m resolve new] by (auto simp: set_check_duplicate)
  have 1: "TITLE_SIMILARITY_THRESHOLD = 8 / 10" by (simp add: TITLE_SIMILARITY_THRESHOLD_def)
  have 2: "(\<exists>m\<in>set (snd (check_duplicate resolve new es)).
                submission m = e \<and> (\<exists>s. reason m = SimilarTitle s))
              \<longleftrightarrow> e \<in> set es \<and> 8 / 10 \<le> ?ts"
  proof
    assume "\<exists>m\<in>set (snd (check_duplicate resolve new es)).
                submission m = e \<and> (\<exists>s. reason m = SimilarTitle s)"
    then obtain m s where m: "m \<in> set (snd (check_duplicate resolve new es))"
      "submission m = e" "reason m = SimilarTitle s" by blast
    from own[OF m(1,2)] m(3) miss show "e \<in> set es \<and> 8 / 10 \<le> ?ts" by blast
  next
    assume a: "e \<in> set es \<and> 8 / 10 \<le> ?ts"
    then have "\<lparr>submission = e, reason = SimilarTitle ?ts, similarity = ?ts\<rparr>
        \<in> set (snd (check_duplicate resolve new es))"
      using hit by (auto simp: set_check_duplicate intro!: bexI[of _ e])
    then show "\<exists>m\<in>set (snd (check_duplicate resolve new es)).
                submission m = e \<and> (\<exists>s. reason m = SimilarTitle s)"
      by (rule bexI[rotated]) simp
  qed
  have 3: "\<forall>m\<in>set (snd (check_duplicate resolve new es)).
               submission m = e \<longrightarrow> (\<exists>s. reason m = SimilarTitle s) \<longrightarrow>
               reason m = SimilarTitle ?ts \<and> similarity m = ?ts"
  proof (intro ballI impI)
    fix m assume m: "m \<in> set (snd (check_duplicate resolve new es))" "submission m = e"
      "\<exists>s. reason m = SimilarTitle s"
    from own[OF m(1,2)] have mb: "m \<in> set (fst ?b)" by simp
    with m(3) miss have "8 / 10 \<le> ?ts" by blast
    from hit[OF this] mb show "reason m = SimilarTitle ?ts \<and> similarity m = ?ts" by simp
  qed
  have 4: "8 / 10 \<le> ?ts \<longrightarrow>
               check_duplicate_body resolve new e (ds, cs) =
                 (ds @ [\<lparr>submission = e, reason = SimilarTitle ?ts, similarity = ?ts\<rparr>],
                  cs @ [(TitleSimilarity, e)])
               \<and> (ContentSimilarity, e) \<notin> set (similarity_calls resolve new es)"
  proof
    assume h: "8 / 10 \<le> ?ts"
    have a: "check_duplicate_body resolve new e (ds, cs) =
                 (ds @ [\<lparr>submission = e, reason = SimilarTitle ?ts, similarity = ?ts\<rparr>],
                  cs @ [(TitleSimilarity, e)])"
      by (subst check_duplicate_body_append) (simp add: hit[OF h])
    have b: "(ContentSimilarity, e) \<notin> set (similarity_calls resolve new es)"
    proof
      assume "(ContentSimilarity, e) \<in> set (similarity_calls resolve new es)"
      then obtain x where x: "(ContentSimilarity, e) \<in> set (snd (check_duplicate_body resolve new x ([], [])))"
        by (auto simp: set_similarity_calls)
      from body_calls_submission[OF x] x have "(ContentSimilarity, e) \<in> set (snd ?b)" by simp
      with hit[OF h] show False by simp
    qed
    from a b show "check_duplicate_body resolve new e (ds, cs) =
                 (ds @ [\<lparr>submission = e, reason = SimilarTitle ?ts, similarity = ?ts\<rparr>],
                  cs @ [(TitleSimilarity, e)])
               \<and> (ContentSimilarity, e) \<notin> set (similarity_calls resolve new es)" ..
  qed
  from 1 2 3 4 show ?thesis by blast
qed

theorem similar_title_match_witness:
  "id (path ex_close_title) \<noteq> id (path ex_new) \<and> hash ex_close_title \<noteq> hash ex_new
   \<and> compute_similarity (title ex_new) (title ex_close_title) = 8 / 10
   \<and> TITLE_SIMILARITY_THRESHOLD = 8 / 10
   \<and> check_duplicate_body id ex_new ex_close_title ([], []) =
       ([\<lparr>submission = ex_close_title, reason = SimilarTitle (8 / 10), similarity = 8 / 10\<rparr>],
        [(TitleSimilarity, ex_close_title)])
   \<and> (ContentSimilarity, ex_close_title) \<notin> set (similarity_calls id ex_new [ex_close_title])"
proof -
  have h1: "id (path ex_close_title) \<noteq> id (path ex_new)"
    by (simp add: ex_close_title_def ex_new_def)
  have h2: "hash ex_close_title \<noteq> hash ex_new"
    using hash_a_b by (simp add: ex_close_title_def ex_new_def)
  have s: "compute_similarity (title ex_new) (title ex_close_title) = 8 / 10"
    by (simp add: ex_close_title_def ex_new_def sim_ab_abc)
  from similar_title_match[OF h1 h2, of "[ex_close_title]" "[]" "[]"] h1 h2 s
  show ?thesis by (simp del: id_apply)
qed

text \<open>
  Claim C7: compute_similarity is called for the contents of a pair only when both
  contents have at least MIN_CONTENT_LENGTH = 100 characters; when either content is
  shorter the content comparison is skipped, and the pair can only produce a match by
  the hash check or the title check.
\<close>

theorem content_needs_minimum_length:
  "MIN_CONTENT_LENGTH = 100
   \<and> ((ContentSimilarity, e) \<in> set (similarity_calls resolve new es)
        \<longrightarrow> 100 \<le> length (content new) \<and> 100 \<le> length (content e))
   \<and> (length (content new) < 100 \<or> length (content e) < 100
        \<longrightarrow> (ContentSimilarity, e) \<notin> set (similarity_calls resolve new es)
            \<and> (\<forall>m\<in>set (snd (check_duplicate resolve new es)).
                  submission m = e
                  \<longrightarrow> reason m = ExactContentMatch \<or> (\<exists>s. reason m = SimilarTitle s)))"
proof -
  have 1: "MIN_CONTENT_LENGTH = 100" by (simp add: thresholds)
  have 2: "(ContentSimilarity, e) \<in> set (similarity_calls resolve new es)
        \<longrightarrow> 100 \<le> length (content new) \<and> 100 \<le> length (content e)"
    by (simp add: content_call_iff thresholds)
  have 3: "length (content new) < 100 \<or> length (content e) < 100
        \<longrightarrow> (ContentSimilarity, e) \<notin> set (similarity_calls resolve new es)
            \<and> (\<forall>m\<in>set (snd (check_duplicate resolve new es)).
                  submission m = e
                  \<longrightarrow> reason m = ExactContentMatch \<or> (\<exists>s. reason m = SimilarTitle s))"
  proof (intro impI conjI ballI)
    assume short: "length (content new) < 100 \<or> length (content e) < 100"
    then show "(ContentSimilarity, e) \<notin> set (similarity_calls resolve new es)"
      by (auto simp: content_call_iff thresholds)
    fix m assume m: "m \<in> set (snd (check_duplicate resolve new es))" "submission m = e"
    then obtain x where x: "m \<in> set (fst (check_duplicate_body resolve new x ([], [])))"
      by (auto simp: set_check_duplicate)
    with m(2) body_matches_submission[OF x]
    have mb: "m \<in> set (fst (check_duplicate_body resolve new e ([], [])))" by simp
    show "reason m = ExactContentMatch \<or> (\<exists>s. reason m = SimilarTitle s)"
    proof (cases "reason m")
      case (SimilarContent s)
      from body_content_match[OF mb this] short show ?thesis by (simp add: thresholds)
    qed simp_all
  qed
  from 1 2 3 show ?thesis by blast
qed

theorem content_needs_minimum_length_witness:
  "length (content ex_new) < 100
   \<and> (ContentSimilarity, ex_other) \<notin> set (similarity_calls id ex_new [ex_other])
   \<and> similarity_calls id ex_new [ex_other] = [(TitleSimilarity, ex_other)]
   \<and> (ContentSimilarity, ex_long_old) \<in> set (similarity_calls id ex_long_new [ex_long_old])
   \<and> 100 \<le> length (content ex_long_new) \<and> 100 \<le> length (content ex_long_old)"
proof -
  have s: "length (content ex_new) < 100" by (simp add: ex_new_def)
  have c1: "similarity_calls id ex_new [ex_other] = [(TitleSimilarity, ex_other)]"
    by (simp add: similarity_calls_def check_duplicate_loop_concat body_ex_other del: id_apply)
  have c2: "(ContentSimilarity, ex_long_old) \<in> set (similarity_calls id ex_long_new [ex_long_old])"
    by (simp add: similarity_calls_def check_duplicate_loop_concat body_ex_long del: id_apply)
  from content_needs_minimum_length[of ex_other id ex_new "[ex_other]"] s
  have "(ContentSimilarity, ex_other) \<notin> set (similarity_calls id ex_new [ex_other])" by blast
  moreover from content_needs_minimum_length[of ex_long_old id ex_long_new "[ex_long_old]"] c2
  have "100 \<le> length (content ex_long_new) \<and> 100 \<le> length (content ex_long_old)" by blast
  ultimately show ?thesis using s c1 c2 by blast
qed

text \<open>
  Claim C10 as stated, for every pair of records, fails: a pair stopped by the hash
  check (or by the title check) has no content comparison, whatever the lengths of the
  raw contents.
\<close>

theorem long_contents_not_compared:
  "length (content ex_long_new) = 100 \<and> length (content ex_long_same) = 100
   \<and> path ex_long_same \<noteq> path ex_long_new
   \<and> similarity_calls id ex_long_new [ex_long_same] = []
   \<and> (ContentSimilarity, ex_long_same) \<notin> set (similarity_calls id ex_long_new [ex_long_same])"
proof -
  have l: "length (content ex_long_new) = 100" "length (content ex_long_same) = 100"
    by (simp_all add: ex_long_new_def ex_long_same_def)
  have p: "path ex_long_same \<noteq> path ex_long_new"
    by (simp add: ex_long_new_def ex_long_same_def)
  have b: "check_duplicate_body id ex_long_new ex_long_same ([], []) =
      ([\<lparr>submission = ex_long_same, reason = ExactContentMatch, similarity = 1\<rparr>], [])"
    using p hash_long_same by (simp add: check_duplicate_body_def)
  have c: "similarity_calls id ex_long_new [ex_long_same] = []"
    unfolding similarity_calls_def check_duplicate_loop_concat by (simp only: list.map concat.simps b snd_conv append_Nil)
  from l p c show ?thesis by simp
qed

text \<open>
  Claim C10, as amended: the minimum of 100 characters is measured on the raw contents,
  before any normalisation. For a pair that reaches the content check (distinct
  identities, unequal hashes, title similarity below the threshold), compute_similarity
  is called for the contents exactly when both raw contents have at least 100
  characters, whatever the lengths of their normal forms.
\<close>

theorem content_length_is_raw:
  assumes "resolve (path e) \<noteq> resolve (path new)" and "hash e \<noteq> hash new"
    and "compute_similarity (title new) (title e) < 8 / 10" and "e \<in> set es"
  shows "(ContentSimilarity, e) \<in> set (similarity_calls resolve new es)
         \<longleftrightarrow> 100 \<le> length (content new) \<and> 100 \<le> length (content e)"
  using assms by (simp add: content_call_iff thresholds)

theorem content_length_is_raw_witness:
  "id (path ex_long_old) \<noteq> id (path ex_long_new) \<and> hash ex_long_old \<noteq> hash ex_long_new
   \<and> compute_similarity (title ex_long_new) (title ex_long_old) < 8 / 10
   \<and> ex_long_old \<in> set [ex_long_old]
   \<and> length (normalize_text (content ex_long_new)) = 1
   \<and> length (normalize_text (content ex_long_old)) = 1
   \<and> length (content ex_long_new) = 100 \<and> length (content ex_long_old) = 100
   \<and> (ContentSimilarity, ex_long_old) \<in> set (similarity_calls id ex_long_new [ex_long_old])
   \<and> id (path ex_other) \<noteq> id (path ex_new) \<and> hash ex_other \<noteq> hash ex_new
   \<and> compute_similarity (title ex_new) (title ex_other) < 8 / 10
   \<and> normalize_text (content ex_other) = content ex_other \<and> length (content ex_other) = 1
   \<and> (ContentSimilarity, ex_other) \<notin> set (similarity_calls id ex_new [ex_other])"
proof -
  have h1: "id (path ex_long_old) \<noteq> id (path ex_long_new)" using ex_paths(6) by simp
  have h2: "hash ex_long_old \<noteq> hash ex_long_new" by (rule ex_hashes(6))
  have h3: "compute_similarity (title ex_long_new) (title ex_long_old) < 8 / 10"
    by (simp add: ex_long_new_def ex_long_old_def sim_abc_xyz)
  have h4: "ex_long_old \<in> set [ex_long_old]" by simp
  have n: "length (normalize_text (content ex_long_new)) = 1"
    "length (normalize_text (content ex_long_old)) = 1"
    "normalize_text (content ex_other) = content ex_other"
    unfolding ex_long_new_def ex_long_old_def ex_other_def
    by (simp_all add: normalize_bangs) code_simp+
  have l: "length (content ex_long_new) = 100" "length (content ex_long_old) = 100"
    "length (content ex_other) = 1"
    by (simp_all add: ex_long_new_def ex_long_old_def ex_other_def)
  have g1: "id (path ex_other) \<noteq> id (path ex_new)" using ex_paths(4) by simp
  have g2: "hash ex_other \<noteq> hash ex_new" by (rule ex_hashes(4))
  have g3: "compute_similarity (title ex_new) (title ex_other) < 8 / 10"
    by (simp add: ex_new_def ex_other_def sim_abc_xyz)
  have g5: "length (content ex_new) = 1" by (simp add: ex_new_def)
  from content_length_is_raw[OF h1 h2 h3 h4] l
  have a: "(ContentSimilarity, ex_long_old) \<in> set (similarity_calls id ex_long_new [ex_long_old])"
    by (simp del: id_apply)
  from content_length_is_raw[OF g1 g2 g3, of "[ex_other]"] g5
  have b: "(ContentSimilarity, ex_other) \<notin> set (similarity_calls id ex_new [ex_other])"
    by (simp del: id_apply)
  from h1 h2 h3 h4 n l a g1 g2 g3 b show ?thesis by blast
qed

text \<open>
  Claim C8: check_duplicate returns the collected matches sorted by similarity in
  descending order; matches of equal similarity keep the order in which the existing
  records were supplied; and is_duplicate is true exactly when the list is not empty.
  The collected matches are the matches of the existing records, in their order.
\<close>

theorem matches_sorted_stable:
  "sorted (rev (map similarity (snd (check_duplicate resolve new es))))
   \<and> mset (snd (check_duplicate resolve new es)) =
       mset (concat (map (\<lambda>e. fst (check_duplicate_body resolve new e ([], []))) es))
   \<and> (\<forall>s. filter (\<lambda>m. similarity m = s) (snd (check_duplicate resolve new es)) =
           filter (\<lambda>m. similarity m = s)
             (concat (map (\<lambda>e. fst (check_duplicate_body resolve new e ([], []))) es)))
   \<and> (fst (check_duplicate resolve new es) \<longleftrightarrow> snd (check_duplicate resolve new es) \<noteq> [])"
  by (simp add: check_duplicate_def Let_def check_duplicate_loop_concat
        sort_reverse_descending sort_reverse_stable)

theorem matches_sorted_stable_witness:
  "check_duplicate id ex_new [ex_close_title, ex_other, ex_same_content, ex_close_title2] =
     (True,
      [\<lparr>submission = ex_same_content, reason = ExactContentMatch, similarity = 1\<rparr>,
       \<lparr>submission = ex_close_title, reason = SimilarTitle (4 / 5), similarity = 4 / 5\<rparr>,
       \<lparr>submission = ex_close_title2, reason = SimilarTitle (4 / 5), similarity = 4 / 5\<rparr>])
   \<and> sorted (rev (map similarity (snd (check_duplicate id ex_new
         [ex_close_title, ex_other, ex_same_content, ex_close_title2]))))
   \<and> filter (\<lambda>m. similarity m = 4 / 5) (snd (check_duplicate id ex_new
         [ex_close_title, ex_other, ex_same_content, ex_close_title2])) =
       [\<lparr>submission = ex_close_title, reason = SimilarTitle (4 / 5), similarity = 4 / 5\<rparr>,
        \<lparr>submission = ex_close_title2, reason = SimilarTitle (4 / 5), similarity = 4 / 5\<rparr>]"
proof -
  let ?es = "[ex_close_title, ex_other, ex_same_content, ex_close_title2]"
  have c: "concat (map (\<lambda>e. fst (check_duplicate_body id ex_new e ([], []))) ?es) =
      [\<lparr>submission = ex_close_title, reason = SimilarTitle (4 / 5), similarity = 4 / 5\<rparr>,
       \<lparr>submission = ex_same_content, reason = ExactContentMatch, similarity = 1\<rparr>,
       \<lparr>submission = ex_close_title2, reason = SimilarTitle (4 / 5), similarity = 4 / 5\<rparr>]"
    by (simp add: body_ex_close body_ex_other body_ex_same body_ex_close2 del: id_apply)
  have l: "fst (check_duplicate_loop id ex_new ?es ([], [])) =
      [\<lparr>submission = ex_close_title, reason = SimilarTitle (4 / 5), similarity = 4 / 5\<rparr>,
       \<lparr>submission = ex_same_content, reason = ExactContentMatch, similarity = 1\<rparr>,
       \<lparr>submission = ex_close_title2, reason = SimilarTitle (4 / 5), similarity = 4 / 5\<rparr>]"
    by (simp only: check_duplicate_loop_concat fst_conv append_Nil c)
  have r: "check_duplicate id ex_new ?es =
     (True,
      [\<lparr>submission = ex_same_content, reason = ExactContentMatch, similarity = 1\<rparr>,
       \<lparr>submission = ex_close_title, reason = SimilarTitle (4 / 5), similarity = 4 / 5\<rparr>,
       \<lparr>submission = ex_close_title2, reason = SimilarTitle (4 / 5), similarity = 4 / 5\<rparr>])"
    unfolding check_duplicate_def Let_def l by (simp add: sort_reverse_def)
  from matches_sorted_stable[of id ex_new ?es]
  have s: "sorted (rev (map similarity (snd (check_duplicate id ex_new ?es))))"
    and f: "filter (\<lambda>m. similarity m = 4 / 5) (snd (check_duplicate id ex_new ?es)) =
           filter (\<lambda>m. similarity m = 4 / 5)
             (concat (map (\<lambda>e. fst (check_duplicate_body id ex_new e ([], []))) ?es))"
    by blast+
  have f': "filter (\<lambda>m. similarity m = 4 / 5) (snd (check_duplicate id ex_new ?es)) =
       [\<lparr>submission = ex_close_title, reason = SimilarTitle (4 / 5), similarity = 4 / 5\<rparr>,
        \<lparr>submission = ex_close_title2, reason = SimilarTitle (4 / 5), similarity = 4 / 5\<rparr>]"
    unfolding f c by simp
  from r s f' show ?thesis by blast
qed

text \<open>
  Claim C1 as stated fails in its last part: two records with empty titles and different
  content hashes are recorded as a SimilarTitle match, with similarity 1.0, since the
  ratio of two empty sequences is 1.0.
\<close>

theorem empty_titles_match:
  "title ex_untitled_new = [] \<and> title ex_untitled_old = []
   \<and> hash ex_untitled_old \<noteq> hash ex_untitled_new
   \<and> path ex_untitled_old \<noteq> path ex_untitled_new
   \<and> compute_similarity (title ex_untitled_new) (title ex_untitled_old) = 1
   \<and> check_duplicate id ex_untitled_new [ex_untitled_old] =
       (True, [\<lparr>submission = ex_untitled_old, reason = SimilarTitle 1, similarity = 1\<rparr>])"
proof -
  have t: "title ex_untitled_new = []" "title ex_untitled_old = []"
    by (simp_all add: ex_untitled_new_def ex_untitled_old_def)
  have s: "compute_similarity (title ex_untitled_new) (title ex_untitled_old) = 1"
    by (simp add: t compute_similarity_def ratio_same)
  have l: "fst (check_duplicate_loop id ex_untitled_new [ex_untitled_old] ([], [])) =
      [\<lparr>submission = ex_untitled_old, reason = SimilarTitle 1, similarity = 1\<rparr>]"
    by (simp only: check_duplicate_loop_concat fst_conv append_Nil list.map concat.simps
          body_ex_untitled append_Nil2)
  have r: "check_duplicate id ex_untitled_new [ex_untitled_old] =
       (True, [\<lparr>submission = ex_untitled_old, reason = SimilarTitle 1, similarity = 1\<rparr>])"
    unfolding check_duplicate_def Let_def l by (simp add: sort_reverse_def)
  from t s r ex_hashes(5) ex_paths(5) show ?thesis by blast
qed

text \<open>
  Claim C1, as amended: check_duplicate returns a result for every new record and every
  corpus of records with string fields. A title with an empty normal form has similarity
  0 with a title whose normal form is not empty, and similarity 1.0 with another title
  whose normal form is empty. For a pair with distinct identities and unequal hashes: if
  exactly one title has an empty normal form, no SimilarTitle match is recorded; if both
  have, a SimilarTitle match with similarity 1.0 is recorded. An empty content is never
  compared.
\<close>

theorem empty_fields_similarity:
  "(\<exists>is_duplicate matches. check_duplicate resolve new es = (is_duplicate, matches))
   \<and> (normalize_text t1 = [] \<longrightarrow>
         compute_similarity t1 t2 = (if normalize_text t2 = [] then 1 else 0)
         \<and> compute_similarity t2 t1 = (if normalize_text t2 = [] then 1 else 0))
   \<and> (resolve (path e) \<noteq> resolve (path new) \<and> hash e \<noteq> hash new
        \<and> (normalize_text (title new) = []) \<noteq> (normalize_text (title e) = [])
        \<longrightarrow> (\<forall>m\<in>set (snd (check_duplicate resolve new es)).
               submission m = e \<longrightarrow> (\<forall>s. reason m \<noteq> SimilarTitle s)))
   \<and> (resolve (path e) \<noteq> resolve (path new) \<and> hash e \<noteq> hash new
        \<and> normalize_text (title new) = [] \<and> normalize_text (title e) = []
        \<longrightarrow> check_duplicate_body resolve new e (ds, cs) =
              (ds @ [\<lparr>submission = e, reason = SimilarTitle 1, similarity = 1\<rparr>],
               cs @ [(TitleSimilarity, e)]))
   \<and> (content new = [] \<or> content e = []
        \<longrightarrow> (ContentSimilarity, e) \<notin> set (similarity_calls resolve new es))"
proof -
  have 1: "\<exists>is_duplicate matches. check_duplicate resolve new es = (is_duplicate, matches)"
    by (simp add: check_duplicate_def Let_def)
  have 2: "normalize_text t1 = [] \<longrightarrow>
         compute_similarity t1 t2 = (if normalize_text t2 = [] then 1 else 0)
         \<and> compute_similarity t2 t1 = (if normalize_text t2 = [] then 1 else 0)"
    using compute_similarity_empty by blast
  have 3: "resolve (path e) \<noteq> resolve (path new) \<and> hash e \<noteq> hash new
        \<and> (normalize_text (title new) = []) \<noteq> (normalize_text (title e) = [])
        \<longrightarrow> (\<forall>m\<in>set (snd (check_duplicate resolve new es)).
               submission m = e \<longrightarrow> (\<forall>s. reason m \<noteq> SimilarTitle s))"
  proof (intro impI ballI allI)
    fix m s
    assume a: "resolve (path e) \<noteq> resolve (path new) \<and> hash e \<noteq> hash new
        \<and> (normalize_text (title new) = []) \<noteq> (normalize_text (title e) = [])"
      and m: "m \<in> set (snd (check_duplicate resolve new es))" "submission m = e"
    from a have "compute_similarity (title new) (title e) = 0"
      using compute_similarity_empty[of "title new" "title e"]
        compute_similarity_empty[of "title e" "title new"] by auto
    then have lt: "compute_similarity (title new) (title e) < TITLE_SIMILARITY_THRESHOLD"
      by (simp add: thresholds)
    from m obtain x where x: "m \<in> set (fst (check_duplicate_body resolve new x ([], [])))"
      by (auto simp: set_check_duplicate)
    with m(2) body_matches_submission[OF x]
    have "m \<in> set (fst (check_duplicate_body resolve new e ([], [])))" by simp
    from body_title_miss[OF lt this] show "reason m \<noteq> SimilarTitle s" .
  qed
  have 4: "resolve (path e) \<noteq> resolve (path new) \<and> hash e \<noteq> hash new
        \<and> normalize_text (title new) = [] \<and> normalize_text (title e) = []
        \<longrightarrow> check_duplicate_body resolve new e (ds, cs) =
              (ds @ [\<lparr>submission = e, reason = SimilarTitle 1, similarity = 1\<rparr>],
               cs @ [(TitleSimilarity, e)])"
  proof
    assume a: "resolve (path e) \<noteq> resolve (path new) \<and> hash e \<noteq> hash new
        \<and> normalize_text (title new) = [] \<and> normalize_text (title e) = []"
    then have s: "compute_similarity (title new) (title e) = 1"
      using compute_similarity_empty[of "title new" "title e"] by simp
    then have "TITLE_SIMILARITY_THRESHOLD \<le> compute_similarity (title new) (title e)"
      by (simp add: thresholds)
    from body_title_hit[OF _ _ this] a s
    have "check_duplicate_body resolve new e ([], []) =
       ([\<lparr>submission = e, reason = SimilarTitle 1, similarity = 1\<rparr>], [(TitleSimilarity, e)])"
      by simp
    then show "check_duplicate_body resolve new e (ds, cs) =
              (ds @ [\<lparr>submission = e, reason = SimilarTitle 1, similarity = 1\<rparr>],
               cs @ [(TitleSimilarity, e)])"
      by (subst check_duplicate_body_append) simp
  qed
  have 5: "content new = [] \<or> content e = []
        \<longrightarrow> (ContentSimilarity, e) \<notin> set (similarity_calls resolve new es)"
    by (auto simp: content_call_iff thresholds)
  from 1 2 3 4 5 show ?thesis by blast
qed

theorem empty_fields_similarity_witness:
  "normalize_text (title ex_untitled_new) = [] \<and> normalize_text (title ex_untitled_old) = []
   \<and> id (path ex_untitled_old) \<noteq> id (path ex_untitled_new)
   \<and> hash ex_untitled_old \<noteq> hash ex_untitled_new
   \<and> check_duplicate_body id ex_untitled_new ex_untitled_old ([], []) =
       ([\<lparr>submission = ex_untitled_old, reason = SimilarTitle 1, similarity = 1\<rparr>],
        [(TitleSimilarity, ex_untitled_old)])
   \<and> compute_similarity [] ''abc'' = 0 \<and> compute_similarity ''abc'' [] = 0
   \<and> compute_similarity [] ''?!'' = 1
   \<and> id (path ex_other) \<noteq> id (path ex_untitled_new) \<and> hash ex_other \<noteq> hash ex_untitled_new
   \<and> (normalize_text (title ex_untitled_new) = []) \<noteq> (normalize_text (title ex_other) = [])
   \<and> \<lparr>submission = ex_other, reason = SimilarTitle 0, similarity = 0\<rparr>
        \<notin> set (snd (check_duplicate id ex_untitled_new [ex_other]))
   \<and> content (ex_new\<lparr>content := []\<rparr>) = []
   \<and> (ContentSimilarity, ex_other) \<notin> set (similarity_calls id (ex_new\<lparr>content := []\<rparr>) [ex_other])"
proof -
  have n: "normalize_text (title ex_untitled_new) = []" "normalize_text (title ex_untitled_old) = []"
    "normalize_text [] = []" "normalize_text ''abc'' \<noteq> []" "normalize_text ''?!'' = []"
    "normalize_text (title ex_other) \<noteq> []"
    unfolding ex_untitled_new_def ex_untitled_old_def ex_other_def by simp_all code_simp+
  have h: "id (path ex_untitled_old) \<noteq> id (path ex_untitled_new)"
    "hash ex_untitled_old \<noteq> hash ex_untitled_new"
    using ex_paths(5) ex_hashes(5) by simp_all
  have g: "id (path ex_other) \<noteq> id (path ex_untitled_new)"
    "hash ex_other \<noteq> hash ex_untitled_new"
    using hash_a_b by (simp_all add: ex_other_def ex_untitled_new_def)
  have x: "(normalize_text (title ex_untitled_new) = []) \<noteq> (normalize_text (title ex_other) = [])"
    using n by simp
  from empty_fields_similarity[of id ex_untitled_new "[]" "[]" "''abc''" ex_untitled_old "[]" "[]"] n h
  have a: "check_duplicate_body id ex_untitled_new ex_untitled_old ([], []) =
       ([\<lparr>submission = ex_untitled_old, reason = SimilarTitle 1, similarity = 1\<rparr>],
        [(TitleSimilarity, ex_untitled_old)])"
    and b: "compute_similarity [] ''abc'' = 0 \<and> compute_similarity ''abc'' [] = 0"
    by (simp_all del: id_apply)
  from empty_fields_similarity[of id ex_untitled_new "[]" "[]" "''?!''" ex_untitled_old "[]" "[]"] n
  have c: "compute_similarity [] ''?!'' = 1" by (simp del: id_apply)
  from empty_fields_similarity[of id ex_untitled_new "[ex_other]" "[]" "[]" ex_other] g x
  have "\<forall>m\<in>set (snd (check_duplicate id ex_untitled_new [ex_other])).
          submission m = ex_other \<longrightarrow> (\<forall>s. reason m \<noteq> SimilarTitle s)"
    by blast
  then have d: "\<lparr>submission = ex_other, reason = SimilarTitle 0, similarity = 0\<rparr>
        \<notin> set (snd (check_duplicate id ex_untitled_new [ex_other]))"
    by fastforce
  have e0: "content (ex_new\<lparr>content := []\<rparr>) = []" by simp
  from empty_fields_similarity[of id "ex_new\<lparr>content := []\<rparr>" "[ex_other]" "[]" "[]" ex_other] e0
  have e: "(ContentSimilarity, ex_other) \<notin> set (similarity_calls id (ex_new\<lparr>content := []\<rparr>) [ex_other])"
    by blast
  from n(1,2) h a b c g x d e0 e show ?thesis by blast
qed

section \<open>Properties of the content hash\<close>

text \<open>
  Claim C9: compute_hash(text) is the lowercase hexadecimal SHA-256 digest of the UTF-8
  encoding of normalize(text): 64 characters out of 0-9 and a-f. It is a function of the
  normal form alone: texts with equal normal forms have equal hashes, and the hash that
  load_submission stores depends on the content only, not on the file or the environment
  it was loaded from.
\<close>

theorem compute_hash_of_normal_form:
  "compute_hash text = hexdigest (sha256 (encode_utf8 (normalize_text text)))
   \<and> length (compute_hash text) = 64
   \<and> (\<forall>c\<in>set (compute_hash text). c \<in> set ''0123456789abcdef'')
   \<and> (normalize_text t1 = normalize_text t2 \<longrightarrow> compute_hash t1 = compute_hash t2)
   \<and> (load_submission env1 f1 = Some s1 \<and> load_submission env2 f2 = Some s2
        \<and> normalize_text (dict_content s1) = normalize_text (dict_content s2)
      \<longrightarrow> dict_hash s1 = dict_hash s2)"
  using load_submission_hash[of env1 f1 s1] load_submission_hash[of env2 f2 s2]
  by (auto simp: compute_hash_def length_hexdigest length_sha256 dest: set_hexdigest)

theorem compute_hash_of_normal_form_witness:
  "normalize_text ''A!'' = normalize_text ''a'' \<and> ''A!'' \<noteq> ''a''
   \<and> compute_hash ''A!'' = compute_hash ''a''
   \<and> compute_hash ''a'' = ''ca978112ca1bbdcafac231b39a23dc4da786eff8147c4e72b9807785afee48bb''
   \<and> length (compute_hash ''A!'') = 64
   \<and> load_submission ex_env ''new/first.md'' =
       Some \<lparr>dict_path = ''new/first.md'', dict_title = YString ''abc'', dict_content = ''a'',
             dict_hash = compute_hash ''a''\<rparr>
   \<and> load_submission ex_env_in_place ''submissions/2023/same.md'' = Some (as_dict ex_same_content)
   \<and> normalize_text (dict_content (as_dict ex_same_content)) = normalize_text ''a''
   \<and> dict_hash (as_dict ex_same_content) = compute_hash ''a''"
proof -
  have n: "normalize_text ''A!'' = normalize_text ''a''" by code_simp
  from compute_hash_of_normal_form[of "''A!''" "''A!''" "''a''"] n
  have 1: "compute_hash ''A!'' = compute_hash ''a''" "length (compute_hash ''A!'') = 64"
    by blast+
  have c: "normalize_text (dict_content (as_dict ex_same_content)) = normalize_text ''a''"
    using n by (simp add: ex_same_content_def as_dict_def)
  have l: "load_submission ex_env ''new/first.md'' =
       Some \<lparr>dict_path = ''new/first.md'', dict_title = YString ''abc'', dict_content = ''a'',
             dict_hash = compute_hash ''a''\<rparr>"
    by (simp add: ex_env_loads as_dict_def)
  from compute_hash_of_normal_form[of "[]" "[]" "[]" ex_env_in_place "''submissions/2023/same.md''"
      "as_dict ex_same_content" ex_env "''new/first.md''"
      "\<lparr>dict_path = ''new/first.md'', dict_title = YString ''abc'', dict_content = ''a'',
        dict_hash = compute_hash ''a''\<rparr>"]
    l ex_env_in_place_loads(2) c
  have 2: "dict_hash (as_dict ex_same_content) = compute_hash ''a''" by simp
  from n 1 2 c hash_a l ex_env_in_place_loads(2) show ?thesis by simp
qed

section \<open>Properties of the batch runner\<close>

text \<open>
  Claim C4 as stated fails in its last part: the corpus is every file of the submissions
  directory, so new inputs that are files of that directory are compared with one
  another. Two new files with the same content are each reported as a duplicate of the
  other.
\<close>

theorem new_inputs_in_corpus_compared:
  "path ex_new = ''submissions/2024/new.md'' \<and> path ex_same_content = ''submissions/2023/same.md''
   \<and> find_all_submissions ex_env_in_place ''.'' = [as_dict ex_new, as_dict ex_same_content]
   \<and> check_submissions_for_duplicates ex_env_in_place
        [''submissions/2024/new.md'', ''submissions/2023/same.md''] ''.''
     = Inr (True,
        [''submissions/2024/new.md'' \<mapsto>
           Duplicate [as_dict_match \<lparr>submission = ex_same_content, reason = ExactContentMatch,
                                     similarity = 1\<rparr>],
         ''submissions/2023/same.md'' \<mapsto>
           Duplicate [as_dict_match \<lparr>submission = ex_new, reason = ExactContentMatch,
                                     similarity = 1\<rparr>]])"
proof -
  have rp: "resolve_path ex_env_in_place = (\<lambda>p. p)" by (simp add: ex_env_in_place_def)
  have p: "path ex_new = ''submissions/2024/new.md''"
    "path ex_same_content = ''submissions/2023/same.md''"
    by (simp_all add: ex_new_def ex_same_content_def)
  have 1: "check_duplicate_dict (\<lambda>p. p) (as_dict ex_new) [as_dict ex_new, as_dict ex_same_content]
      = Inr (True, [as_dict_match \<lparr>submission = ex_same_content, reason = ExactContentMatch,
                                   similarity = 1\<rparr>])"
    using check_duplicate_dict_strings[of "\<lambda>p. p" ex_new "[ex_new, ex_same_content]"]
    by (simp add: ex_in_place_new)
  have 2: "check_duplicate_dict (\<lambda>p. p) (as_dict ex_same_content)
        [as_dict ex_new, as_dict ex_same_content]
      = Inr (True, [as_dict_match \<lparr>submission = ex_new, reason = ExactContentMatch,
                                   similarity = 1\<rparr>])"
    using check_duplicate_dict_strings[of "\<lambda>p. p" ex_same_content "[ex_new, ex_same_content]"]
    by (simp add: ex_in_place_same)
  have "check_submissions_for_duplicates ex_env_in_place
        [''submissions/2024/new.md'', ''submissions/2023/same.md''] ''.''
     = Inr (True,
        [''submissions/2024/new.md'' \<mapsto>
           Duplicate [as_dict_match \<lparr>submission = ex_same_content, reason = ExactContentMatch,
                                     similarity = 1\<rparr>],
         ''submissions/2023/same.md'' \<mapsto>
           Duplicate [as_dict_match \<lparr>submission = ex_new, reason = ExactContentMatch,
                                     similarity = 1\<rparr>]])"
    by (simp add: check_submissions_for_duplicates_def ex_env_in_place_corpus
          ex_env_in_place_loads rp 1 2)
  with p ex_env_in_place_corpus show ?thesis by simp
qed

text \<open>
  Claim C4, as amended: when the title of every loaded record is a string (the records of
  the corpus and the new inputs that load), the batch runner returns, and it maps every
  new input to exactly one of LoadError (status "error"), Unique and Duplicate(matches).
  An input that fails to load gets LoadError and the batch goes on. Every input that
  loads is checked against the corpus that find_all_submissions loaded once, before the
  loop, and against nothing else: its outcome does not depend on which other inputs are
  in the batch, and is the outcome of a batch of that input alone. (Other new inputs are
  compared with it exactly when they are files of the loaded corpus.) Without the
  condition on the titles the runner need not return a mapping at all: lemma
  \<open>non_string_title_aborts\<close>.
\<close>

theorem batch_outcomes:
  assumes "\<forall>s\<in>set (find_all_submissions env base_path). \<exists>t. dict_title s = YString t"
    and "\<forall>f\<in>set new_files. \<forall>s. load_submission env f = Some s
           \<longrightarrow> (\<exists>t. dict_title s = YString t)"
  shows "\<exists>has_duplicates results.
     check_submissions_for_duplicates env new_files base_path = Inr (has_duplicates, results)
     \<and> dom results = set new_files
     \<and> (\<forall>f\<in>set new_files. load_submission env f = None
           \<longrightarrow> results f = Some (Error ''Failed to load submission''))
     \<and> (\<forall>f\<in>set new_files. \<forall>new_sub. load_submission env f = Some new_sub
           \<longrightarrow> (\<exists>is_dup duplicates.
                  check_duplicate_dict (resolve_path env) new_sub
                    (find_all_submissions env base_path) = Inr (is_dup, duplicates)
                  \<and> results f = Some (if is_dup then Duplicate duplicates else Unique)))
     \<and> (\<forall>f\<in>set new_files.
           (load_submission env f = None) = (\<exists>msg. results f = Some (Error msg)))
     \<and> (\<forall>f\<in>set new_files. \<exists>has_duplicates' results'.
           check_submissions_for_duplicates env [f] base_path = Inr (has_duplicates', results')
           \<and> results' f = results f)
     \<and> (has_duplicates \<longleftrightarrow> (\<exists>f\<in>set new_files. \<exists>ms. results f = Some (Duplicate ms)))"
proof -
  let ?all = "find_all_submissions env base_path"
  let ?h = "\<lambda>fs. \<exists>f\<in>set fs. \<exists>ms. file_outcome env ?all f = Inr (Duplicate ms)"
  let ?r = "\<lambda>fs f. if f \<in> set fs then Some (projr (file_outcome env ?all f)) else None"
  have ret: "\<forall>f\<in>set new_files. \<exists>out. file_outcome env ?all f = Inr out"
    using file_outcome_returns[OF assms(1)] assms(2) by blast
  have r: "check_submissions_for_duplicates env fs base_path = Inr (?h fs, ?r fs)"
    if "set fs \<subseteq> set new_files" for fs
  proof -
    from that ret have "\<forall>f\<in>set fs. \<exists>out. file_outcome env ?all f = Inr out" by blast
    from batch_loop_results[OF this, of False Map.empty]
    show ?thesis by (simp add: check_submissions_for_duplicates_def Let_def)
  qed
  have 0: "check_submissions_for_duplicates env new_files base_path =
      Inr (?h new_files, ?r new_files)"
    by (rule r) simp
  have 1: "dom (?r new_files) = set new_files"
    by (auto simp: dom_def)
  have 2: "\<forall>f\<in>set new_files. load_submission env f = None
           \<longrightarrow> ?r new_files f = Some (Error ''Failed to load submission'')"
    by (simp add: file_outcome_def)
  have 3: "\<forall>f\<in>set new_files. \<forall>new_sub. load_submission env f = Some new_sub
           \<longrightarrow> (\<exists>is_dup duplicates.
                  check_duplicate_dict (resolve_path env) new_sub ?all = Inr (is_dup, duplicates)
                  \<and> ?r new_files f = Some (if is_dup then Duplicate duplicates else Unique))"
  proof (intro ballI allI impI)
    fix f new_sub
    assume f: "f \<in> set new_files" and l: "load_submission env f = Some new_sub"
    from assms(2) f l have "\<exists>t. dict_title new_sub = YString t" by blast
    from check_duplicate_dict_returns[OF this assms(1), of "resolve_path env"]
    obtain is_dup duplicates where
      c: "check_duplicate_dict (resolve_path env) new_sub ?all = Inr (is_dup, duplicates)"
      by blast
    have "?r new_files f = Some (if is_dup then Duplicate duplicates else Unique)"
      using f by (simp add: file_outcome_def l c)
    with c show "\<exists>is_dup duplicates.
        check_duplicate_dict (resolve_path env) new_sub ?all = Inr (is_dup, duplicates)
        \<and> ?r new_files f = Some (if is_dup then Duplicate duplicates else Unique)"
      by blast
  qed
  have 4: "\<forall>f\<in>set new_files.
           (load_submission env f = None) = (\<exists>msg. ?r new_files f = Some (Error msg))"
  proof
    fix f
    assume f: "f \<in> set new_files"
    show "(load_submission env f = None) = (\<exists>msg. ?r new_files f = Some (Error msg))"
    proof (cases "load_submission env f")
      case None
      with f show ?thesis by (simp add: file_outcome_def)
    next
      case (Some new_sub)
      with 3 f obtain is_dup duplicates where
        "?r new_files f = Some (if is_dup then Duplicate duplicates else Unique)" by blast
      with Some show ?thesis by (simp split: if_splits)
    qed
  qed
  have 5: "\<forall>f\<in>set new_files. \<exists>has_duplicates' results'.
           check_submissions_for_duplicates env [f] base_path = Inr (has_duplicates', results')
           \<and> results' f = ?r new_files f"
  proof
    fix f
    assume f: "f \<in> set new_files"
    then have "check_submissions_for_duplicates env [f] base_path = Inr (?h [f], ?r [f])"
      by (intro r) simp
    moreover have "?r [f] f = ?r new_files f" using f by simp
    ultimately show "\<exists>has_duplicates' results'.
           check_submissions_for_duplicates env [f] base_path = Inr (has_duplicates', results')
           \<and> results' f = ?r new_files f"
      by blast
  qed
  have 6: "?h new_files \<longleftrightarrow> (\<exists>f\<in>set new_files. \<exists>ms. ?r new_files f = Some (Duplicate ms))"
  proof -
    have "(file_outcome env ?all f = Inr (Duplicate ms))
        = (?r new_files f = Some (Duplicate ms))" if "f \<in> set new_files" for f ms
    proof -
      from ret that obtain out where "file_outcome env ?all f = Inr out" by blast
      with that show ?thesis by simp
    qed
    then show ?thesis by blast
  qed
  from 0 1 2 3 4 5 6 show ?thesis by blast
qed

theorem batch_outcomes_witness:
  "find_all_submissions ex_env ''.'' = [as_dict ex_close_title]
   \<and> dict_title (as_dict ex_close_title) = YString ''ab''
   \<and> check_submissions_for_duplicates ex_env
        [''new/first.md'', ''new/missing.md'', ''new/second.md''] ''.''
     = Inr (True,
        [''new/first.md'' \<mapsto>
           Duplicate [as_dict_match \<lparr>submission = ex_close_title, reason = SimilarTitle (4 / 5),
                                     similarity = 4 / 5\<rparr>],
         ''new/missing.md'' \<mapsto> Error ''Failed to load submission'',
         ''new/second.md'' \<mapsto> Unique])"
proof -
  let ?fs = "[''new/first.md'', ''new/missing.md'', ''new/second.md'']"
  let ?m = "\<lparr>submission = ex_close_title, reason = SimilarTitle (4 / 5), similarity = 4 / 5\<rparr>"
  have rp: "resolve_path ex_env = (\<lambda>p. p)" by (simp add: ex_env_def)
  have t: "dict_title (as_dict ex_close_title) = YString ''ab''"
    by (simp add: as_dict_def ex_close_title_def)
  have c: "\<forall>s\<in>set (find_all_submissions ex_env ''.''). \<exists>t. dict_title s = YString t"
    by (simp add: ex_env_corpus t)
  have l: "\<forall>f\<in>set ?fs. \<forall>s. load_submission ex_env f = Some s
           \<longrightarrow> (\<exists>t. dict_title s = YString t)"
    by (simp add: ex_env_loads as_dict_def)
  from batch_outcomes[OF c l] obtain h r where
    b: "check_submissions_for_duplicates ex_env ?fs ''.'' = Inr (h, r)"
    and d: "dom r = set ?fs"
    and e: "\<forall>f\<in>set ?fs. load_submission ex_env f = None
           \<longrightarrow> r f = Some (Error ''Failed to load submission'')"
    and s: "\<forall>f\<in>set ?fs. \<forall>new_sub. load_submission ex_env f = Some new_sub
           \<longrightarrow> (\<exists>is_dup duplicates.
                  check_duplicate_dict (resolve_path ex_env) new_sub
                    (find_all_submissions ex_env ''.'') = Inr (is_dup, duplicates)
                  \<and> r f = Some (if is_dup then Duplicate duplicates else Unique))"
    and hd: "h \<longleftrightarrow> (\<exists>f\<in>set ?fs. \<exists>ms. r f = Some (Duplicate ms))"
    by blast
  have d1: "check_duplicate_dict (\<lambda>p. p)
      (as_dict \<lparr>path = ''new/first.md'', title = ''abc'', content = ''a'',
                hash = compute_hash ''a''\<rparr>) [as_dict ex_close_title] =
      Inr (True, [as_dict_match ?m])"
    using check_duplicate_dict_strings[of "\<lambda>p. p" _ "[ex_close_title]"]
    by (simp add: ex_env_first)
  have d2: "check_duplicate_dict (\<lambda>p. p)
      (as_dict \<lparr>path = ''new/second.md'', title = ''xyz'', content = ''a'',
                hash = compute_hash ''a''\<rparr>) [as_dict ex_close_title] = Inr (False, [])"
    using check_duplicate_dict_strings[of "\<lambda>p. p" _ "[ex_close_title]"]
    by (simp add: ex_env_second)
  have r1: "r ''new/first.md'' = Some (Duplicate [as_dict_match ?m])"
    using s ex_env_loads(1) d1 by (auto simp: rp ex_env_corpus)
  have r2: "r ''new/missing.md'' = Some (Error ''Failed to load submission'')"
    using e ex_env_loads(2) by simp
  have r3: "r ''new/second.md'' = Some Unique"
    using s ex_env_loads(3) d2 by (auto simp: rp ex_env_corpus)
  have r: "r = [''new/first.md'' \<mapsto> Duplicate [as_dict_match ?m],
         ''new/missing.md'' \<mapsto> Error ''Failed to load submission'',
         ''new/second.md'' \<mapsto> Unique]"
  proof (rule ext)
    fix f
    show "r f = [''new/first.md'' \<mapsto> Duplicate [as_dict_match ?m],
         ''new/missing.md'' \<mapsto> Error ''Failed to load submission'',
         ''new/second.md'' \<mapsto> Unique] f"
    proof (cases "f \<in> set ?fs")
      case True
      then show ?thesis using r1 r2 r3 by auto
    next
      case False
      with d have "r f = None" by blast
      with False show ?thesis by simp
    qed
  qed
  have h: "h" unfolding hd using r1 by simp
  from b r h t ex_env_corpus show ?thesis by simp
qed

text \<open>
  Whenever the check of one new input raises, the batch raises: no mapping is returned,
  whatever the other inputs are.
\<close>

lemma batch_loop_raises:
  assumes "f \<in> set fs" and "file_outcome env all_submissions f = Inl e"
  shows "\<exists>e'. batch_loop env all_submissions fs st = Inl e'"
  using assms
proof (induction fs arbitrary: st)
  case Nil
  then show ?case by simp
next
  case (Cons g fs)
  obtain h r where st: "st = (h, r)" by (cases st)
  show ?case
  proof (cases "\<exists>e'. file_outcome env all_submissions g = Inl e'")
    case True
    then show ?thesis
      by (auto simp: st file_outcome_def split: option.splits sum.splits)
  next
    case False
    with Cons.prems have "f \<in> set fs" by auto
    from Cons.IH[OF this Cons.prems(2)] show ?thesis
      by (auto simp: st split: option.splits sum.splits)
  qed
qed

lemma batch_raises:
  assumes "f \<in> set new_files"
    and "file_outcome env (find_all_submissions env base_path) f = Inl e"
  shows "\<exists>e'. check_submissions_for_duplicates env new_files base_path = Inl e'"
  using batch_loop_raises[OF assms]
  by (simp add: check_submissions_for_duplicates_def Let_def)

end
